theory Spec2Isabelle
  imports
    Main
    "HOL-Library.AList"
    "HOL-Library.Sublist"
    "HOL-Library.Multiset"
    "HOL-Library.Word"
begin

section \<open>Values kept in the browser's stores\<close>

text \<open>
  \<^verbatim>\<open>localStorage\<close> and \<^verbatim>\<open>sessionStorage\<close> map string keys to string values. The program
  writes two kinds of strings: raw ones (a counter's decimal digits, a token, the flag
  \<^verbatim>\<open>'true'\<close>) and the \<^verbatim>\<open>JSON.stringify\<close> of an object. \<^verbatim>\<open>JSON.parse\<close> of what
  \<^verbatim>\<open>JSON.stringify\<close> wrote gives the object back, so a stored JSON text is kept as the
  object it denotes, one constructor for each shape the program writes.

  Numbers are JavaScript doubles in the source; every number here is an integer far
  below \<open>2^53\<close>, where doubles are exact, and the model uses \<open>int\<close>.

  Calls to the two stores are taken to succeed (no quota, no disabled storage):
  \<^verbatim>\<open>getItem\<close>, \<^verbatim>\<open>setItem\<close> and \<^verbatim>\<open>removeItem\<close> do not throw. \<^verbatim>\<open>Date.now()\<close> is an
  input of each call.
\<close>

datatype json =
    JNull
  | JBool bool
  | JNum int
  | JStr string
  | JArr "json list"
  | JObj "(string \<times> json) list"

text \<open>The session object of \<^verbatim>\<open>createSession\<close>; \<open>sid\<close> is its field \<^verbatim>\<open>id\<close>.\<close>

record session =
  sid :: string
  user :: json
  created :: int
  expires :: int
  ip :: string
  userAgent :: string
  lastActivity :: "int option"

text \<open>One entry of a counter's history array (\<^verbatim>\<open>saveToHistory\<close>).\<close>

record history_entry =
  timestamp :: int
  counterId :: string
  entry_userAgent :: string
  entry_referrer :: string
  entry_options :: json

datatype sval =
    Text string
  | SessionJ session
  | BucketJ int int
  | DetailsJ int string string json
  | HistoryJ "history_entry list"

text \<open>
  \<open>Text s\<close> is the raw string \<open>s\<close>. \<open>BucketJ c r\<close> is the JSON text of
  \<^verbatim>\<open>{count: c, resetTime: r}\<close>, \<open>DetailsJ t ua ref opts\<close> that of the details object of
  \<^verbatim>\<open>incrementLocal\<close>, \<open>HistoryJ es\<close> that of a history array. Under a key that the
  program reads with \<^verbatim>\<open>JSON.parse\<close>, a raw \<open>Text\<close> is taken to be no JSON text
  (\<^verbatim>\<open>JSON.parse\<close> throws on it).

  A store is an association list: \<^verbatim>\<open>Object.keys\<close> enumerates it in list order.
\<close>

type_synonym storage = "(string \<times> sval) list"

definition getItem :: "storage \<Rightarrow> string \<Rightarrow> sval option" where
  "getItem st k = map_of st k"

definition setItem :: "storage \<Rightarrow> string \<Rightarrow> sval \<Rightarrow> storage" where
  "setItem st k v = AList.update k v st"

definition removeItem :: "storage \<Rightarrow> string \<Rightarrow> storage" where
  "removeItem st k = AList.delete k st"

definition keys_of :: "storage \<Rightarrow> string list" where
  "keys_of st = map fst st"

text \<open>Truthiness of \<^verbatim>\<open>getItem(k)\<close>: \<^verbatim>\<open>null\<close> and the empty string are falsy.\<close>

fun truthy :: "sval option \<Rightarrow> bool" where
  "truthy None = False"
| "truthy (Some (Text s)) = (s \<noteq> [])"
| "truthy (Some _) = True"

definition startsWith :: "string \<Rightarrow> string \<Rightarrow> bool" where
  "startsWith s p = prefix p s"

fun str_includes :: "string \<Rightarrow> string \<Rightarrow> bool" where
  "str_includes [] sub = (sub = [])"
| "str_includes (c # cs) sub = (prefix sub (c # cs) \<or> str_includes cs sub)"

subsection \<open>\<^verbatim>\<open>parseInt\<close> and \<^verbatim>\<open>Number.prototype.toString\<close>\<close>

definition is_ws :: "char \<Rightarrow> bool" where
  "is_ws c = (c \<in> set [CHR '' '', CHR 0x09, CHR 0x0A, CHR 0x0B, CHR 0x0C, CHR 0x0D])"

definition is_digit :: "char \<Rightarrow> bool" where
  "is_digit c = (48 \<le> (of_char c :: nat) \<and> (of_char c :: nat) \<le> 57)"

definition digit_val :: "char \<Rightarrow> nat" where
  "digit_val c = of_char c - 48"

definition hex_val :: "char \<Rightarrow> nat option" where
  "hex_val c =
     (let n = (of_char c :: nat) in
      if 48 \<le> n \<and> n \<le> 57 then Some (n - 48)
      else if 97 \<le> n \<and> n \<le> 102 then Some (n - 87)
      else if 65 \<le> n \<and> n \<le> 70 then Some (n - 55)
      else None)"

definition decimal :: "string \<Rightarrow> nat" where
  "decimal ds = foldl (\<lambda>acc c. 10 * acc + digit_val c) 0 ds"

definition hexadecimal :: "string \<Rightarrow> nat" where
  "hexadecimal ds = foldl (\<lambda>acc c. 16 * acc + the (hex_val c)) 0 ds"

definition hex_prefix :: "string \<Rightarrow> bool" where
  "hex_prefix s =
     (case s of
        c1 # c2 # _ \<Rightarrow> c1 = CHR ''0'' \<and> (c2 = CHR ''x'' \<or> c2 = CHR ''X'')
      | _ \<Rightarrow> False)"

text \<open>
  \<^verbatim>\<open>parseInt(s)\<close> with no radix: leading white space, a sign, \<^verbatim>\<open>0x\<close> for base 16, then
  the longest run of digits; \<open>None\<close> is \<^verbatim>\<open>NaN\<close>.
\<close>

definition parseInt_str :: "string \<Rightarrow> int option" where
  "parseInt_str s =
     (let s1 = dropWhile is_ws s;
          neg = (s1 \<noteq> [] \<and> hd s1 = CHR ''-'');
          s2 = (if s1 \<noteq> [] \<and> (hd s1 = CHR ''-'' \<or> hd s1 = CHR ''+'') then tl s1 else s1);
          sgn = (if neg then - 1 else 1)
      in if hex_prefix s2
         then (let ds = takeWhile (\<lambda>c. hex_val c \<noteq> None) (drop 2 s2)
               in if ds = [] then None else Some (sgn * int (hexadecimal ds)))
         else (let ds = takeWhile is_digit s2
               in if ds = [] then None else Some (sgn * int (decimal ds))))"

text \<open>
  \<^verbatim>\<open>parseInt(localStorage.getItem(k))\<close>: \<^verbatim>\<open>null\<close> is converted to the string
  \<^verbatim>\<open>"null"\<close>, and a JSON text starts with \<^verbatim>\<open>{\<close> or \<^verbatim>\<open>[\<close>: both give \<^verbatim>\<open>NaN\<close>.
\<close>

fun parseInt :: "sval option \<Rightarrow> int option" where
  "parseInt (Some (Text s)) = parseInt_str s"
| "parseInt _ = None"

text \<open>\<^verbatim>\<open>parseInt(...) || 0\<close>: \<^verbatim>\<open>NaN\<close> and \<open>0\<close> are falsy.\<close>

definition parseInt_or0 :: "sval option \<Rightarrow> int" where
  "parseInt_or0 v = (case parseInt v of None \<Rightarrow> 0 | Some n \<Rightarrow> n)"

definition digit_char :: "nat \<Rightarrow> char" where
  "digit_char d = char_of (48 + d)"

fun digits_of :: "nat \<Rightarrow> string" where
  "digits_of n =
     (if n < 10 then [digit_char n] else digits_of (n div 10) @ [digit_char (n mod 10)])"

declare digits_of.simps [simp del]

definition toString :: "int \<Rightarrow> string" where
  "toString n = (if n < 0 then CHR ''-'' # digits_of (nat (- n)) else digits_of (nat n))"

section \<open>The browser\<close>

record browser =
  localStorage :: storage
  sessionStorage :: storage
  nav_userAgent :: string
  doc_referrer :: string

section \<open>SecuritySystem\<close>

record SecuritySystem =
  sessionDuration :: int

text \<open>The constructor: \<^verbatim>\<open>this.sessionDuration = 24 * 60 * 60 * 1000\<close>.\<close>

definition new_SecuritySystem :: SecuritySystem where
  "new_SecuritySystem = \<lparr> sessionDuration = 24 * 60 * 60 * 1000 \<rparr>"

datatype exn = NetworkError | SyntaxError | TypeError

subsection \<open>Rate limiting\<close>

record rate_result =
  allowed :: bool
  remaining :: int
  resetIn :: int
  retryAfter :: "int option"

text \<open>\<^verbatim>\<open>Math.ceil(d / 1000)\<close> on an integer \<open>d\<close>.\<close>

definition ceil_div :: "int \<Rightarrow> int \<Rightarrow> int" where
  "ceil_div d k = - ((- d) div k)"

text \<open>
  \<^verbatim>\<open>JSON.parse(sessionStorage.getItem(key) || '{}')\<close> followed by the test
  \<^verbatim>\<open>!data.count || !data.resetTime\<close>: the pair \<open>(count, resetTime)\<close> the function goes on
  with at time \<open>now\<close>. Any JSON text other than a bucket has neither field.
\<close>

fun bucket_data :: "sval option \<Rightarrow> int \<Rightarrow> int \<Rightarrow> exn + (int \<times> int)" where
  "bucket_data None now interval = Inr (0, now + interval)"
| "bucket_data (Some (Text s)) now interval =
     (if s = [] then Inr (0, now + interval) else Inl SyntaxError)"
| "bucket_data (Some (BucketJ c r)) now interval =
     (if c = 0 \<or> r = 0 then Inr (0, now + interval) else Inr (c, r))"
| "bucket_data (Some _) now interval = Inr (0, now + interval)"

definition checkRateLimit ::
  "string \<Rightarrow> int \<Rightarrow> int \<Rightarrow> int \<Rightarrow> 'a browser_scheme \<Rightarrow> exn + (rate_result \<times> 'a browser_scheme)" where
  "checkRateLimit action limit interval now b =
     (let key = ''rate_limit_'' @ action in
      case bucket_data (getItem (sessionStorage b) key) now interval of
        Inl e \<Rightarrow> Inl e
      | Inr (count0, resetTime0) \<Rightarrow>
          let count1 = (if now > resetTime0 then 0 else count0);
              resetTime = (if now > resetTime0 then now + interval else resetTime0)
          in if count1 \<ge> limit
             then Inr (\<lparr> allowed = False, remaining = 0, resetIn = resetTime - now,
                         retryAfter = Some (ceil_div (resetTime - now) 1000) \<rparr>, b)
             else Inr (\<lparr> allowed = True, remaining = limit - (count1 + 1),
                         resetIn = resetTime - now, retryAfter = None \<rparr>,
                       b\<lparr> sessionStorage :=
                            setItem (sessionStorage b) key (BucketJ (count1 + 1) resetTime) \<rparr>))"

subsection \<open>Random strings\<close>

text \<open>
  \<^verbatim>\<open>generateRandomString\<close> indexes a 62-character alphabet with the bytes of
  \<^verbatim>\<open>window.crypto.getRandomValues\<close>; when that throws it falls back on
  \<^verbatim>\<open>Math.random().toString(36).substr(2, 1)\<close>, one string of at most one character for
  each position. Both sources are inputs of the model.
\<close>

datatype random_source =
    Crypto "nat \<Rightarrow> 8 word"
  | MathRandom "nat \<Rightarrow> string"

definition chars :: string where
  "chars = ''ABCDEFGHIJKLMNOPQRSTUVWXYZabcdefghijklmnopqrstuvwxyz0123456789''"

fun generateRandomString :: "nat \<Rightarrow> random_source \<Rightarrow> string" where
  "generateRandomString len (Crypto array) =
     map (\<lambda>i. chars ! (unat (array i) mod length chars)) [0..<len]"
| "generateRandomString len (MathRandom r) = concat (map r [0..<len])"

subsection \<open>CSRF token\<close>

text \<open>
  \<^verbatim>\<open>generateCSRFToken\<close> returns the token, or \<^verbatim>\<open>null\<close> (\<open>None\<close>) from its catch; with
  stores that do not throw the catch is not reached.
\<close>

definition generateCSRFToken ::
  "random_source \<Rightarrow> int \<Rightarrow> 'a browser_scheme \<Rightarrow> string option \<times> 'a browser_scheme" where
  "generateCSRFToken rnd now b =
     (let token = generateRandomString 32 rnd;
          expires = now + 3600000;
          ls1 = setItem (localStorage b) ''csrf_token'' (Text token);
          ls2 = setItem ls1 ''csrf_token_expires'' (Text (toString expires));
          ss1 = setItem (sessionStorage b) ''csrf_token'' (Text token)
      in (Some token, b\<lparr> localStorage := ls2, sessionStorage := ss1 \<rparr>))"

subsection \<open>Sessions\<close>

text \<open>
  \<^verbatim>\<open>getClientIP\<close> asks an external service; \<open>Some a\<close> is an answer with address
  \<open>a\<close>, \<open>None\<close> a failed request.
\<close>

definition getClientIP :: "string option \<Rightarrow> string" where
  "getClientIP response = (case response of Some a \<Rightarrow> a | None \<Rightarrow> ''127.0.0.1'')"

text \<open>
  \<^verbatim>\<open>updateSessionActivity\<close>. The test \<^verbatim>\<open>Date.now() - session.created <
  this.sessionDuration * 0.8\<close> is written with integers: \<open>10 * elapsed < 8 * duration\<close>
  (for the constructor's duration the product is the integer \<open>69120000\<close>). A raw string
  under the key makes \<^verbatim>\<open>JSON.parse\<close> throw into the catch. A JSON text of another shape
  is left as it is (the source would add a \<^verbatim>\<open>lastActivity\<close> field to such an object).
\<close>

definition updateSessionActivity ::
  "SecuritySystem \<Rightarrow> int \<Rightarrow> 'a browser_scheme \<Rightarrow> 'a browser_scheme" where
  "updateSessionActivity this now b =
     (case getItem (localStorage b) ''user_session'' of
        Some (SessionJ s) \<Rightarrow>
          let s1 = s\<lparr> lastActivity := Some now \<rparr>;
              s2 = (if 10 * (now - created s1) < 8 * sessionDuration this
                    then s1\<lparr> expires := now + sessionDuration this \<rparr> else s1)
          in b\<lparr> localStorage := setItem (localStorage b) ''user_session'' (SessionJ s2) \<rparr>
      | _ \<Rightarrow> b)"

text \<open>
  \<^verbatim>\<open>destroySession\<close>: five removals, then every volatile key that starts with
  \<^verbatim>\<open>rate_limit_\<close> or \<^verbatim>\<open>captcha_\<close>.
\<close>

definition destroySession :: "'a browser_scheme \<Rightarrow> 'a browser_scheme" where
  "destroySession b =
     (let ls = removeItem (removeItem (removeItem (localStorage b)
                 ''user_session'') ''csrf_token'') ''csrf_token_expires'';
          ss = removeItem (removeItem (sessionStorage b) ''session_id'') ''csrf_token'';
          doomed = filter (\<lambda>k. startsWith k ''rate_limit_'' \<or> startsWith k ''captcha_'')
                     (keys_of ss)
      in b\<lparr> localStorage := ls, sessionStorage := foldl removeItem ss doomed \<rparr>)"

text \<open>
  The statements of the body of \<^verbatim>\<open>createSession\<close>, in their order. The object literal
  reads the clock (\<open>now\<close>) and awaits \<^verbatim>\<open>getClientIP()\<close>; the stores are written after
  that, and \<^verbatim>\<open>updateSessionActivity\<close> reads the clock again (\<open>later\<close>). An \<^verbatim>\<open>await\<close>
  has this meaning in the body of an \<^verbatim>\<open>async\<close> method only.
\<close>

definition createSession_body ::
  "SecuritySystem \<Rightarrow> random_source \<Rightarrow> string option \<Rightarrow> int \<Rightarrow> int \<Rightarrow> json \<Rightarrow>
   'a browser_scheme \<Rightarrow> string option \<times> 'a browser_scheme" where
  "createSession_body this rnd response now later userData b =
     (let sessionId = generateRandomString 64 rnd;
          sessionData = \<lparr> sid = sessionId, user = userData, created = now,
                          expires = now + sessionDuration this, ip = getClientIP response,
                          userAgent = nav_userAgent b, lastActivity = None \<rparr>;
          b1 = b\<lparr> localStorage := setItem (localStorage b) ''user_session'' (SessionJ sessionData),
                  sessionStorage := setItem (sessionStorage b) ''session_id'' (Text sessionId) \<rparr>
      in (Some sessionId, updateSessionActivity this later b1))"

text \<open>
  A method is declared plain or \<^verbatim>\<open>async\<close>. A plain method whose body has an \<^verbatim>\<open>await\<close>
  expression is a syntax error, and so is the script that holds it.
\<close>

datatype modifier = Plain | Async

definition parses :: "modifier \<Rightarrow> bool \<Rightarrow> bool" where
  "parses m has_await = (case m of Async \<Rightarrow> True | Plain \<Rightarrow> \<not> has_await)"

text \<open>
  \<^verbatim>\<open>createSession\<close> as the source has it: declared \<^verbatim>\<open>createSession(userData) {\<close>, a plain
  method, with \<^verbatim>\<open>ip: await this.getClientIP()\<close> in its body. The body runs only in a
  script that parses.
\<close>

definition createSession ::
  "SecuritySystem \<Rightarrow> random_source \<Rightarrow> string option \<Rightarrow> int \<Rightarrow> int \<Rightarrow> json \<Rightarrow>
   'a browser_scheme \<Rightarrow> exn + string option \<times> 'a browser_scheme" where
  "createSession this rnd response now later userData b =
     (if parses Plain True
      then Inr (createSession_body this rnd response now later userData b)
      else Inl SyntaxError)"

text \<open>
  \<^verbatim>\<open>validateSession\<close> returns \<^verbatim>\<open>false\<close> (\<open>None\<close>) or \<^verbatim>\<open>session.user\<close>. A JSON
  text that is no session has neither \<^verbatim>\<open>expires\<close> nor \<^verbatim>\<open>id\<close>: it is not expired
  and its id differs from whatever the volatile store holds.
\<close>

definition validateSession ::
  "SecuritySystem \<Rightarrow> int \<Rightarrow> 'a browser_scheme \<Rightarrow> json option \<times> 'a browser_scheme" where
  "validateSession this now b =
     (case getItem (localStorage b) ''user_session'' of
        None \<Rightarrow> (None, b)
      | Some (Text s) \<Rightarrow> (None, b)
      | Some (SessionJ s) \<Rightarrow>
          if now > expires s then (None, destroySession b)
          else if getItem (sessionStorage b) ''session_id'' \<noteq> Some (Text (sid s))
          then (None, destroySession b)
          else (Some (user s), updateSessionActivity this now b)
      | Some _ \<Rightarrow> (None, destroySession b))"

text \<open>
  A test's manual expiry: the durable record's \<^verbatim>\<open>expires\<close> field is overwritten.
\<close>

definition set_expires :: "int \<Rightarrow> 'a browser_scheme \<Rightarrow> 'a browser_scheme" where
  "set_expires e b =
     (case getItem (localStorage b) ''user_session'' of
        Some (SessionJ s) \<Rightarrow>
          b\<lparr> localStorage :=
               setItem (localStorage b) ''user_session'' (SessionJ (s\<lparr> expires := e \<rparr>)) \<rparr>
      | _ \<Rightarrow> b)"

section \<open>CounterSystem\<close>

text \<open>
  The remote table \<^verbatim>\<open>page_counters\<close> is keyed by \<^verbatim>\<open>id\<close>; of a row the model keeps
  the column \<^verbatim>\<open>count\<close>. Every call to the remote client is answered by the network in
  one of three ways: it is served, it comes back with \<^verbatim>\<open>error\<close> set, or the awaited
  promise rejects. \<open>script\<close> lists the answers to the coming calls, in order; when the
  list is used up, calls are served. \<open>requests\<close> records the writes the program has
  sent, in order, whatever became of them. \<open>clock\<close> is the time \<^verbatim>\<open>new Date()\<close> reads.
  An \<^verbatim>\<open>async\<close> method returns \<open>Inr\<close> of its value, or \<open>Inl\<close> of the exception its
  promise rejects with.
\<close>

datatype outcome = Served | Failed | Thrown

datatype request = Insert string int | Update string int

record CounterSystem = browser +
  fallbackEnabled :: bool
  initialized :: bool
  pendingIncrements :: "(string \<times> json) list"
  page_counters :: "string \<rightharpoonup> int"
  script :: "outcome list"
  requests :: "request list"
  clock :: int

definition localStoragePrefix :: string where
  "localStoragePrefix = ''fresko_counter_''"

definition sessionPrefix :: string where
  "sessionPrefix = ''counter_visited_''"

text \<open>The constructor, in a browser \<open>b\<close> with a remote table \<open>tbl\<close>.\<close>

definition new_CounterSystem :: "browser \<Rightarrow> (string \<rightharpoonup> int) \<Rightarrow> CounterSystem" where
  "new_CounterSystem b tbl =
     \<lparr> localStorage = localStorage b, sessionStorage = sessionStorage b,
       nav_userAgent = nav_userAgent b, doc_referrer = doc_referrer b,
       fallbackEnabled = True, initialized = False, pendingIncrements = [],
       page_counters = tbl, script = [], requests = [], clock = 0 \<rparr>"

definition next_outcome :: "CounterSystem \<Rightarrow> outcome \<times> CounterSystem" where
  "next_outcome s =
     (case script s of [] \<Rightarrow> (Served, s) | x # xs \<Rightarrow> (x, s\<lparr> script := xs \<rparr>))"

text \<open>
  \<^verbatim>\<open>.select('count').eq('id', cid).single()\<close>: \<open>Inr (Some c)\<close> is \<^verbatim>\<open>data\<close> with no
  error, \<open>Inr None\<close> is an error or no row (\<^verbatim>\<open>single()\<close> reports a missing row as an
  error), \<open>Inl\<close> a rejected promise.
\<close>

definition select_count :: "string \<Rightarrow> CounterSystem \<Rightarrow> (exn + int option) \<times> CounterSystem" where
  "select_count cid s =
     (case next_outcome s of
        (Served, s1) \<Rightarrow> (Inr (page_counters s1 cid), s1)
      | (Failed, s1) \<Rightarrow> (Inr None, s1)
      | (Thrown, s1) \<Rightarrow> (Inl NetworkError, s1))"

text \<open>
  \<^verbatim>\<open>.insert({id: cid, count: c, ...})\<close>: a served insert adds the row unless the id
  is taken (then the table reports a duplicate key, which the callers ignore). The
  result is the exception of a rejected promise, if any.
\<close>

definition insert_row :: "string \<Rightarrow> int \<Rightarrow> CounterSystem \<Rightarrow> exn option \<times> CounterSystem" where
  "insert_row cid c s =
     (case next_outcome (s\<lparr> requests := requests s @ [Insert cid c] \<rparr>) of
        (Served, s1) \<Rightarrow>
          (None, if page_counters s1 cid = None
                 then s1\<lparr> page_counters := (page_counters s1)(cid \<mapsto> c) \<rparr> else s1)
      | (Failed, s1) \<Rightarrow> (None, s1)
      | (Thrown, s1) \<Rightarrow> (Some NetworkError, s1))"

text \<open>\<^verbatim>\<open>.update({count: c, ...}).eq('id', cid)\<close>: a served update changes an existing row.\<close>

definition update_row :: "string \<Rightarrow> int \<Rightarrow> CounterSystem \<Rightarrow> exn option \<times> CounterSystem" where
  "update_row cid c s =
     (case next_outcome (s\<lparr> requests := requests s @ [Update cid c] \<rparr>) of
        (Served, s1) \<Rightarrow>
          (None, if page_counters s1 cid = None
                 then s1 else s1\<lparr> page_counters := (page_counters s1)(cid \<mapsto> c) \<rparr>)
      | (Failed, s1) \<Rightarrow> (None, s1)
      | (Thrown, s1) \<Rightarrow> (Some NetworkError, s1))"

definition incrementLocal :: "string \<Rightarrow> json \<Rightarrow> CounterSystem \<Rightarrow> int \<times> CounterSystem" where
  "incrementLocal cid opts s =
     (let key = localStoragePrefix @ cid;
          count = parseInt_or0 (getItem (localStorage s) key) + 1;
          ls1 = setItem (localStorage s) key (Text (toString count));
          details = DetailsJ (clock s) (nav_userAgent s) (doc_referrer s) opts;
          ls2 = setItem ls1 (key @ ''_details'') details
      in (count, s\<lparr> localStorage := ls2 \<rparr>))"

definition getCounterValue :: "string \<Rightarrow> CounterSystem \<Rightarrow> (exn + int) \<times> CounterSystem" where
  "getCounterValue cid s =
     (let localCount = parseInt_or0 (getItem (localStorage s) (localStoragePrefix @ cid)) in
      if \<not> fallbackEnabled s \<and> initialized s
      then (case select_count cid s of
              (Inr (Some c), s1) \<Rightarrow> (Inr (max c localCount), s1)
            | (Inr None, s1) \<Rightarrow> (Inr localCount, s1)
            | (Inl e, s1) \<Rightarrow> (Inr localCount, s1))
      else (Inr localCount, s))"

text \<open>
  \<^verbatim>\<open>saveToHistory\<close> catches everything. Only a history array (or nothing) under the key
  lets the body run through; the array keeps its last 100 entries.
\<close>

definition saveToHistory :: "string \<Rightarrow> json \<Rightarrow> CounterSystem \<Rightarrow> CounterSystem" where
  "saveToHistory cid opts s =
     (let historyKey = localStoragePrefix @ cid @ ''_history'';
          entry = \<lparr> timestamp = clock s, counterId = cid, entry_userAgent = nav_userAgent s,
                    entry_referrer = doc_referrer s, entry_options = opts \<rparr>;
          store = (\<lambda>h. let h1 = h @ [entry];
                            h2 = (if length h1 > 100 then drop (length h1 - 100) h1 else h1)
                        in s\<lparr> localStorage := setItem (localStorage s) historyKey (HistoryJ h2) \<rparr>)
      in case getItem (localStorage s) historyKey of
           None \<Rightarrow> store []
         | Some (HistoryJ h) \<Rightarrow> store h
         | Some _ \<Rightarrow> s)"

text \<open>
  \<^verbatim>\<open>options.pageName || counterId\<close>. Reading a property of \<^verbatim>\<open>null\<close> throws a
  \<^verbatim>\<open>TypeError\<close>; a number, a string, a boolean or an array has no property
  \<^verbatim>\<open>pageName\<close>; of two fields of an object with one name the later one counts; a
  falsy property gives way to the counter id. (The default \<^verbatim>\<open>options = {}\<close> of
  \<^verbatim>\<open>incrementCounter\<close> stands for a missing argument only.)
\<close>

fun json_truthy :: "json \<Rightarrow> bool" where
  "json_truthy JNull = False"
| "json_truthy (JBool b) = b"
| "json_truthy (JNum n) = (n \<noteq> 0)"
| "json_truthy (JStr s) = (s \<noteq> [])"
| "json_truthy (JArr xs) = True"
| "json_truthy (JObj fs) = True"

fun pageName_or :: "json \<Rightarrow> string \<Rightarrow> exn + json" where
  "pageName_or JNull cid = Inl TypeError"
| "pageName_or (JObj fs) cid =
     (case map_of (rev fs) ''pageName'' of
        Some v \<Rightarrow> Inr (if json_truthy v then v else JStr cid)
      | None \<Rightarrow> Inr (JStr cid))"
| "pageName_or _ cid = Inr (JStr cid)"

text \<open>
  The remote half of \<^verbatim>\<open>incrementCounter\<close> (its block \<^verbatim>\<open>if (!this.fallbackEnabled)\<close>):
  the new count, or the exception that sends the caller into its catch. The argument
  of \<^verbatim>\<open>insert\<close> is built before the request is sent, so an exception of
  \<^verbatim>\<open>options.pageName\<close> leaves no request; the remote table of the model keeps the
  count of a row and not its \<^verbatim>\<open>page_name\<close>.
\<close>

definition increment_remote ::
  "string \<Rightarrow> json \<Rightarrow> CounterSystem \<Rightarrow> (exn + int) \<times> CounterSystem" where
  "increment_remote cid opts s =
     (if fallbackEnabled s then (Inr 1, s)
      else case select_count cid s of
             (Inl e, s1) \<Rightarrow> (Inl e, s1)
           | (Inr None, s1) \<Rightarrow>
               (case pageName_or opts cid of
                  Inl e \<Rightarrow> (Inl e, s1)
                | Inr page_name \<Rightarrow>
                    (case insert_row cid 1 s1 of
                       (Some e, s2) \<Rightarrow> (Inl e, s2)
                     | (None, s2) \<Rightarrow> (Inr 1, s2)))
           | (Inr (Some c), s1) \<Rightarrow>
               (case update_row cid (c + 1) s1 of
                  (Some e, s2) \<Rightarrow> (Inl e, s2)
                | (None, s2) \<Rightarrow> (Inr (c + 1), s2)))"

definition incrementCounter ::
  "string \<Rightarrow> json \<Rightarrow> CounterSystem \<Rightarrow> (exn + int) \<times> CounterSystem" where
  "incrementCounter cid opts s =
     (if \<not> initialized s
      then (let s0 = s\<lparr> pendingIncrements := pendingIncrements s @ [(cid, opts)] \<rparr>;
                (c, s1) = incrementLocal cid opts s0
            in (Inr c, s1))
      else
        let sessionKey = sessionPrefix @ cid in
        if truthy (getItem (sessionStorage s) sessionKey)
        then (case getCounterValue cid s of
                (Inr v, s1) \<Rightarrow> (Inr v, s1)
              | (Inl e, s1) \<Rightarrow> (let (c, s2) = incrementLocal cid opts s1 in (Inr c, s2)))
        else (case increment_remote cid opts s of
                (Inl e, s1) \<Rightarrow> (let (c, s2) = incrementLocal cid opts s1 in (Inr c, s2))
              | (Inr newCount, s1) \<Rightarrow>
                  let (localCount, s2) = incrementLocal cid opts s1;
                      s3 = s2\<lparr> sessionStorage :=
                                setItem (sessionStorage s2) sessionKey (Text ''true'') \<rparr>;
                      s4 = saveToHistory cid opts s3
                  in (Inr (max newCount localCount), s4)))"

text \<open>
  The loop of \<^verbatim>\<open>initialize\<close> over \<^verbatim>\<open>this.pendingIncrements\<close>: each call is awaited
  before the next one; a rejection leaves the loop.
\<close>

fun drain :: "(string \<times> json) list \<Rightarrow> CounterSystem \<Rightarrow> (exn + unit) \<times> CounterSystem" where
  "drain [] s = (Inr (), s)"
| "drain ((cid, opts) # rest) s =
     (case incrementCounter cid opts s of
        (Inl e, s1) \<Rightarrow> (Inl e, s1)
      | (Inr v, s1) \<Rightarrow> drain rest s1)"

definition initialize :: "CounterSystem \<Rightarrow> (exn + unit) \<times> CounterSystem" where
  "initialize s =
     (case next_outcome s of
        (Thrown, s1) \<Rightarrow> (Inr (), s1\<lparr> fallbackEnabled := True, initialized := True \<rparr>)
      | (oc, s1) \<Rightarrow>
          let s2 = s1\<lparr> fallbackEnabled := (oc \<noteq> Served), initialized := True \<rparr> in
          if pendingIncrements s2 \<noteq> []
          then (case drain (pendingIncrements s2) s2 of
                  (Inl e, s3) \<Rightarrow> (Inr (), s3\<lparr> fallbackEnabled := True, initialized := True \<rparr>)
                | (Inr u, s3) \<Rightarrow> (Inr (), s3\<lparr> pendingIncrements := [] \<rparr>))
          else (Inr (), s2))"

text \<open>
  One round of the loop of \<^verbatim>\<open>syncWithDatabase\<close> for the key \<open>key\<close>, and the loop.
  \<^verbatim>\<open>key.replace(prefix, '')\<close> removes the prefix the key starts with.
\<close>

definition sync_key :: "string \<Rightarrow> CounterSystem \<Rightarrow> exn option \<times> CounterSystem" where
  "sync_key key s =
     (if str_includes key ''_history'' \<or> str_includes key ''_details'' \<or> str_includes key ''click_''
      then (None, s)
      else
        let cid = drop (length localStoragePrefix) key in
        case parseInt (getItem (localStorage s) key) of
          None \<Rightarrow> (None, s)
        | Some localCount \<Rightarrow>
            (case select_count cid s of
               (Inl e, s1) \<Rightarrow> (Some e, s1)
             | (Inr None, s1) \<Rightarrow> insert_row cid localCount s1
             | (Inr (Some c), s1) \<Rightarrow>
                 if localCount > c then update_row cid localCount s1 else (None, s1)))"

fun sync_loop :: "string list \<Rightarrow> CounterSystem \<Rightarrow> exn option \<times> CounterSystem" where
  "sync_loop [] s = (None, s)"
| "sync_loop (key # rest) s =
     (case sync_key key s of
        (Some e, s1) \<Rightarrow> (Some e, s1)
      | (None, s1) \<Rightarrow> sync_loop rest s1)"

definition syncWithDatabase :: "CounterSystem \<Rightarrow> (exn + bool) \<times> CounterSystem" where
  "syncWithDatabase s =
     (if fallbackEnabled s then (Inr False, s)
      else
        let counterKeys = filter (\<lambda>key. startsWith key localStoragePrefix)
                            (keys_of (localStorage s))
        in case sync_loop counterKeys s of
             (Some e, s1) \<Rightarrow> (Inr False, s1)
           | (None, s1) \<Rightarrow> (Inr True, s1))"

section \<open>AdminFunctions: selecting the winners of a giveaway\<close>

record user_info =
  username :: "string option"
  telegram_tag :: "string option"

text \<open>A row of \<^verbatim>\<open>giveaway_participants\<close> with its joined \<^verbatim>\<open>users\<close> row (or \<^verbatim>\<open>null\<close>).\<close>

record participant =
  user_id :: string
  users :: "user_info option"

record winner =
  w_user_id :: string
  w_username :: "string option"
  w_telegram_tag :: "string option"

text \<open>
  What a read of the remote client resolves to: \<^verbatim>\<open>data\<close>, an \<^verbatim>\<open>error\<close> with its
  message, or a rejected promise. For the giveaway the data is its \<^verbatim>\<open>winners_count\<close>,
  for the participants the list of rows or \<^verbatim>\<open>null\<close>.
\<close>

datatype 'a reply = Reply 'a | ReplyError string | Reject string

text \<open>
  \<^verbatim>\<open>{success: true, winners}\<close> or \<^verbatim>\<open>{success: false, error: error.message}\<close>; the
  message is \<open>None\<close> where the JavaScript engine words it (a \<^verbatim>\<open>TypeError\<close>). The
  \<^verbatim>\<open>message\<close> field that comes with an empty list of participants is left out.
\<close>

datatype winners_result = Success "winner list" | Failure "string option"

text \<open>
  The winner object pushed for a drawn participant:
  \<^verbatim>\<open>winnerParticipant.users?.username\<close> is \<^verbatim>\<open>undefined\<close> when there is no joined row.
\<close>

definition winner_of :: "participant \<Rightarrow> winner" where
  "winner_of p =
     \<lparr> w_user_id = user_id p,
       w_username = (case users p of None \<Rightarrow> None | Some u \<Rightarrow> username u),
       w_telegram_tag = (case users p of None \<Rightarrow> None | Some u \<Rightarrow> telegram_tag u) \<rparr>"

text \<open>
  \<^verbatim>\<open>cryptoRandom()\<close> is \<open>u / 2^32\<close> for a 32-bit word \<open>u\<close> of
  \<^verbatim>\<open>crypto.getRandomValues\<close>, so \<^verbatim>\<open>Math.floor(cryptoRandom() * n)\<close> is
  \<open>u * n div 2^32\<close> (the double product is exact for \<open>n < 2^21\<close>).
\<close>

definition random_index :: "32 word \<Rightarrow> nat \<Rightarrow> nat" where
  "random_index u n = unat u * n div 2 ^ 32"

text \<open>
  The drawing loop with \<open>n\<close> rounds to go: \<open>i\<close> counts the random words used so far,
  \<open>ids\<close> is \<^verbatim>\<open>participantIds\<close>, \<open>ws\<close> is \<^verbatim>\<open>winners\<close>. Reading \<^verbatim>\<open>.users\<close> of a
  participant that \<^verbatim>\<open>find\<close> did not find is a \<^verbatim>\<open>TypeError\<close>.
\<close>

fun draw ::
  "nat \<Rightarrow> nat \<Rightarrow> (nat \<Rightarrow> 32 word) \<Rightarrow> participant list \<Rightarrow> string list \<Rightarrow> winner list \<Rightarrow>
   exn + winner list" where
  "draw 0 i rnd ps ids ws = Inr ws"
| "draw (Suc n) i rnd ps ids ws =
     (let randomIndex = random_index (rnd i) (length ids) in
      if randomIndex < length ids
      then (case find (\<lambda>p. user_id p = ids ! randomIndex) ps of
              None \<Rightarrow> Inl TypeError
            | Some winnerParticipant \<Rightarrow>
                draw n (Suc i) rnd ps (take randomIndex ids @ drop (Suc randomIndex) ids)
                  (ws @ [winner_of winnerParticipant]))
      else Inl TypeError)"

text \<open>
  Saving the winners: one insert each. An insert that comes back with an error is
  logged and the loop goes on; a rejected promise ends it. The second component lists
  the user ids of the rows that were stored.
\<close>

fun save_winners :: "winner list \<Rightarrow> outcome list \<Rightarrow> string list \<Rightarrow> exn option \<times> string list" where
  "save_winners [] os saved = (None, saved)"
| "save_winners (w # ws) [] saved = save_winners ws [] (saved @ [w_user_id w])"
| "save_winners (w # ws) (Served # os) saved = save_winners ws os (saved @ [w_user_id w])"
| "save_winners (w # ws) (Failed # os) saved = save_winners ws os saved"
| "save_winners (w # ws) (Thrown # os) saved = (Some NetworkError, saved)"

definition selectWinners ::
  "int reply \<Rightarrow> participant list option reply \<Rightarrow> (nat \<Rightarrow> 32 word) \<Rightarrow> outcome list \<Rightarrow>
   winners_result \<times> string list" where
  "selectWinners giveaway participants rnd inserts =
     (case giveaway of
        ReplyError m \<Rightarrow> (Failure (Some m), [])
      | Reject m \<Rightarrow> (Failure (Some m), [])
      | Reply winners_count \<Rightarrow>
          (case participants of
             ReplyError m \<Rightarrow> (Failure (Some m), [])
           | Reject m \<Rightarrow> (Failure (Some m), [])
           | Reply None \<Rightarrow> (Success [], [])
           | Reply (Some ps) \<Rightarrow>
               if ps = [] then (Success [], [])
               else
                 let participantIds = map user_id ps;
                     winnersCount = min winners_count (int (length participantIds))
                 in case draw (nat winnersCount) 0 rnd ps participantIds [] of
                      Inl e \<Rightarrow> (Failure None, [])
                    | Inr winners \<Rightarrow>
                        (case save_winners winners inserts [] of
                           (Some e, saved) \<Rightarrow> (Failure None, saved)
                         | (None, saved) \<Rightarrow> (Success winners, saved))))"

section \<open>Runs of counter operations\<close>

text \<open>
  A call of \<^verbatim>\<open>getCounterValue\<close> made in \<open>s\<close>, with the answers \<open>os\<close> of the network
  to come, falls back on the local mirror after a remote read that went wrong: the
  engine is initialized and remote-backed, and the read comes back with an error or
  throws.
\<close>

definition read_failed :: "CounterSystem \<Rightarrow> outcome list \<Rightarrow> bool" where
  "read_failed s os =
     (\<not> fallbackEnabled s \<and> initialized s \<and>
      (case os of [] \<Rightarrow> False | oc # rest \<Rightarrow> oc \<noteq> Served))"

text \<open>
  A run is a list of calls; each call carries the answers the network gives to the
  remote calls made during it. \<open>run\<close> lists what the \<^verbatim>\<open>getCounterValue\<close> calls of the
  run return, in order: the counter, whether the remote read of the call failed, and
  the value returned.
\<close>

datatype operation =
    Increment string json "outcome list"
  | Sync "outcome list"
  | GetValue string "outcome list"

fun run :: "operation list \<Rightarrow> CounterSystem \<Rightarrow> (string \<times> bool \<times> int) list" where
  "run [] s = []"
| "run (Increment cid opts os # ops) s =
     run ops (snd (incrementCounter cid opts (s\<lparr> script := os \<rparr>)))"
| "run (Sync os # ops) s = run ops (snd (syncWithDatabase (s\<lparr> script := os \<rparr>)))"
| "run (GetValue cid os # ops) s =
     (case getCounterValue cid (s\<lparr> script := os \<rparr>) of
        (Inr v, s1) \<Rightarrow> (cid, read_failed s os, v) # run ops s1
      | (Inl e, s1) \<Rightarrow> run ops s1)"

text \<open>The readings of a counter in a run, and the values among them.\<close>

definition readings :: "string \<Rightarrow> (string \<times> bool \<times> int) list \<Rightarrow> (bool \<times> int) list" where
  "readings cid obs = map snd (filter (\<lambda>(c, r). c = cid) obs)"

definition returned :: "string \<Rightarrow> (string \<times> bool \<times> int) list \<Rightarrow> int list" where
  "returned cid obs = map snd (readings cid obs)"

text \<open>
  A later reading \<open>y\<close> keeps the level of an earlier reading \<open>x\<close>: its value is not
  less, the one case apart in which the remote read failed for \<open>y\<close> and did not fail
  for \<open>x\<close>.
\<close>

definition keeps_level :: "bool \<times> int \<Rightarrow> bool \<times> int \<Rightarrow> bool" where
  "keeps_level x y = (if fst y \<and> \<not> fst x then True else snd x \<le> snd y)"

text \<open>
  The remote table does not go down from \<open>t\<close> to \<open>t'\<close>: every row of \<open>t\<close> is in
  \<open>t'\<close> with a count at least as large.
\<close>

definition not_lowered :: "(string \<rightharpoonup> int) \<Rightarrow> (string \<rightharpoonup> int) \<Rightarrow> bool" where
  "not_lowered t t' = (\<forall>cid c. t cid = Some c \<longrightarrow> (\<exists>c'. t' cid = Some c' \<and> c \<le> c'))"

section \<open>Notions of the statements, and example states\<close>

definition empty_browser :: browser where
  "empty_browser =
     \<lparr> localStorage = [], sessionStorage = [], nav_userAgent = ''UA'', doc_referrer = [] \<rparr>"

text \<open>The session object after \<^verbatim>\<open>updateSessionActivity\<close> at time \<open>now\<close>.\<close>

definition renewed :: "SecuritySystem \<Rightarrow> int \<Rightarrow> session \<Rightarrow> session" where
  "renewed this now s =
     s\<lparr> lastActivity := Some now,
        expires := (if 10 * (now - created s) < 8 * sessionDuration this
                    then now + sessionDuration this else expires s) \<rparr>"

definition example_session :: session where
  "example_session =
     \<lparr> sid = ''S1'', user = JStr ''alice'', created = 1000, expires = 86401000,
       ip = ''127.0.0.1'', userAgent = ''UA'', lastActivity = None \<rparr>"

definition session_browser :: browser where
  "session_browser =
     empty_browser\<lparr> localStorage := [(''user_session'', SessionJ example_session)],
                    sessionStorage := [(''session_id'', Text ''S1'')] \<rparr>"

text \<open>The participant \<^verbatim>\<open>find\<close> returns for an id, as a winner object.\<close>

definition found_winner :: "participant list \<Rightarrow> string \<Rightarrow> winner" where
  "found_winner ps i = winner_of (the (find (\<lambda>p. user_id p = i) ps))"

definition three_participants :: "participant list" where
  "three_participants =
     [\<lparr> user_id = ''u1'', users = Some \<lparr> username = Some ''ann'', telegram_tag = None \<rparr> \<rparr>,
      \<lparr> user_id = ''u2'', users = None \<rparr>,
      \<lparr> user_id = ''u3'', users = Some \<lparr> username = Some ''cy'', telegram_tag = Some ''@cy'' \<rparr> \<rparr>]"

definition fresh_system :: CounterSystem where
  "fresh_system = new_CounterSystem empty_browser Map.empty"

text \<open>The local mirror of a counter, as \<^verbatim>\<open>getCounterValue\<close> reads it.\<close>

definition local_count :: "CounterSystem \<Rightarrow> string \<Rightarrow> int" where
  "local_count s cid = parseInt_or0 (getItem (localStorage s) (localStoragePrefix @ cid))"

text \<open>
  The call \<^verbatim>\<open>incrementCounter(cid, opts)\<close> made in \<open>s\<close> ends in the catch block of
  \<^verbatim>\<open>incrementCounter\<close>: the engine is initialized, the flag of the counter is not set,
  and the remote half throws (a remote call of it, or \<^verbatim>\<open>options.pageName\<close>).
\<close>

definition ends_in_catch :: "string \<Rightarrow> json \<Rightarrow> CounterSystem \<Rightarrow> bool" where
  "ends_in_catch cid opts s =
     (initialized s \<and> \<not> truthy (getItem (sessionStorage s) (sessionPrefix @ cid)) \<and>
      (case fst (increment_remote cid opts s) of Inl e \<Rightarrow> True | Inr n \<Rightarrow> False))"

text \<open>
  Example engines: initialized and remote-backed with empty stores; with one and with
  two increments queued before initialization; after one counted increment.
\<close>

definition ready_system :: CounterSystem where
  "ready_system = fresh_system\<lparr> fallbackEnabled := False, initialized := True \<rparr>"

definition queued_once :: CounterSystem where
  "queued_once =
     fresh_system\<lparr> pendingIncrements := [(''a'', JNull)],
       localStorage := [(''fresko_counter_a'', Text ''1''),
                        (''fresko_counter_a_details'', DetailsJ 0 ''UA'' [] JNull)] \<rparr>"

definition queued_twice :: CounterSystem where
  "queued_twice =
     fresh_system\<lparr> pendingIncrements := [(''a'', JNull), (''a'', JNull)],
       localStorage := [(''fresko_counter_a'', Text ''2''),
                        (''fresko_counter_a_details'', DetailsJ 0 ''UA'' [] JNull)] \<rparr>"

definition counted_once :: CounterSystem where
  "counted_once =
     ready_system\<lparr>
       localStorage := [(''fresko_counter_a'', Text ''1''),
                        (''fresko_counter_a_details'', DetailsJ 0 ''UA'' [] (JObj [])),
                        (''fresko_counter_a_history'',
                         HistoryJ [\<lparr> timestamp = 0, counterId = ''a'', entry_userAgent = ''UA'',
                                     entry_referrer = [], entry_options = JObj [] \<rparr>])],
       sessionStorage := [(''counter_visited_a'', Text ''true'')],
       page_counters := [''a'' \<mapsto> 1],
       requests := [Insert ''a'' 1] \<rparr>"

text \<open>
  Notions for the synchronization: a network that serves every call; the keys the loop
  of \<^verbatim>\<open>syncWithDatabase\<close> skips; a key whose counter needs no write (skipped, not a
  number, or a remote row at least as large as the local value).
\<close>

definition all_served :: "outcome list \<Rightarrow> bool" where
  "all_served os = list_all (\<lambda>x. x = Served) os"

definition skipped :: "string \<Rightarrow> bool" where
  "skipped key = (str_includes key ''_history'' \<or> str_includes key ''_details'' \<or>
                  str_includes key ''click_'')"

definition in_sync :: "CounterSystem \<Rightarrow> string \<Rightarrow> bool" where
  "in_sync s key =
     (skipped key \<or>
      (case parseInt (getItem (localStorage s) key) of
         None \<Rightarrow> True
       | Some n \<Rightarrow>
           (case page_counters s (drop (length localStoragePrefix) key) of
              None \<Rightarrow> False
            | Some c \<Rightarrow> n \<le> c)))"

text \<open>
  Example engines: a local counter \<^verbatim>\<open>a\<close> of 3 that the remote table does not have;
  the same with a remote row of 10 and a failing read.
\<close>

definition unsynced :: CounterSystem where
  "unsynced = ready_system\<lparr> localStorage := [(''fresko_counter_a'', Text ''3'')] \<rparr>"

definition ahead_remote :: CounterSystem where
  "ahead_remote = unsynced\<lparr> page_counters := [''a'' \<mapsto> 10], script := [Failed] \<rparr>"

text \<open>
  The value \<^verbatim>\<open>getCounterValue\<close> returns for a counter when its remote read is served:
  the larger of the remote row and the local mirror in remote-backed mode, the local
  mirror otherwise.
\<close>

definition reconciled :: "CounterSystem \<Rightarrow> string \<Rightarrow> int" where
  "reconciled s cid =
     (if \<not> fallbackEnabled s \<and> initialized s
      then (case page_counters s cid of
              None \<Rightarrow> local_count s cid
            | Some c \<Rightarrow> max c (local_count s cid))
      else local_count s cid)"

text \<open>
  From \<open>s\<close> to \<open>s'\<close> the engine keeps its mode, the remote table is not lowered and
  the local mirror of the counter does not go down.
\<close>

definition advanced :: "string \<Rightarrow> CounterSystem \<Rightarrow> CounterSystem \<Rightarrow> bool" where
  "advanced cid s s' =
     (fallbackEnabled s' = fallbackEnabled s \<and> initialized s' = initialized s \<and>
      not_lowered (page_counters s) (page_counters s') \<and>
      local_count s cid \<le> local_count s' cid)"

text \<open>
  Example engines: a page that other visitors have counted 41 times before this
  browser's first visit, and the same after this browser's increment.
\<close>

definition busy_page :: CounterSystem where
  "busy_page = ready_system\<lparr> page_counters := [''a'' \<mapsto> 41] \<rparr>"

definition busy_page_counted :: CounterSystem where
  "busy_page_counted =
     ready_system\<lparr>
       localStorage := [(''fresko_counter_a'', Text ''1''),
                        (''fresko_counter_a_details'', DetailsJ 0 ''UA'' [] (JObj [])),
                        (''fresko_counter_a_history'',
                         HistoryJ [\<lparr> timestamp = 0, counterId = ''a'', entry_userAgent = ''UA'',
                                     entry_referrer = [], entry_options = JObj [] \<rparr>])],
       sessionStorage := [(''counter_visited_a'', Text ''true'')],
       page_counters := [''a'' \<mapsto> 42],
       requests := [Update ''a'' 42] \<rparr>"

section \<open>Facts about the stores and about number strings\<close>

lemma getItem_setItem:
  "getItem (setItem st k v) k' = (if k' = k then Some v else getItem st k')"
  by (simp add: getItem_def setItem_def update_conv')

lemma getItem_removeItem:
  "getItem (removeItem st k) k' = (if k' = k then None else getItem st k')"
  by (simp add: getItem_def removeItem_def delete_conv')

lemma of_char_digit_char: "d < 10 \<Longrightarrow> (of_char (digit_char d) :: nat) = 48 + d"
  by (simp add: digit_char_def)

lemma is_digit_digit_char: "d < 10 \<Longrightarrow> is_digit (digit_char d)"
  by (simp add: is_digit_def of_char_digit_char)

lemma digit_val_digit_char: "d < 10 \<Longrightarrow> digit_val (digit_char d) = d"
  by (simp add: digit_val_def of_char_digit_char)

lemma digits_of_all_digits: "\<forall>c \<in> set (digits_of n). is_digit c"
  by (induction n rule: digits_of.induct) (subst digits_of.simps, simp add: is_digit_digit_char)

lemma digits_of_nonempty: "digits_of n \<noteq> []"
  by (subst digits_of.simps) simp

lemma decimal_snoc: "decimal (ds @ [c]) = 10 * decimal ds + digit_val c"
  by (simp add: decimal_def)

lemma decimal_digits_of: "decimal (digits_of n) = n"
proof (induction n rule: digits_of.induct)
  case (1 n)
  show ?case
  proof (cases "n < 10")
    case True
    then show ?thesis
      by (subst digits_of.simps) (simp add: decimal_def digit_val_digit_char)
  next
    case False
    with 1 have "decimal (digits_of (n div 10)) = n div 10" by simp
    with False show ?thesis
      by (subst digits_of.simps) (simp add: decimal_snoc digit_val_digit_char)
  qed
qed

lemma digit_not_special:
  "is_digit c \<Longrightarrow>
   \<not> is_ws c \<and> c \<noteq> CHR ''-'' \<and> c \<noteq> CHR ''+'' \<and> c \<noteq> CHR ''x'' \<and> c \<noteq> CHR ''X''"
  by (auto simp: is_digit_def is_ws_def)

lemma all_digits_no_hex_prefix:
  assumes "\<forall>c \<in> set s. is_digit c"
  shows "\<not> hex_prefix s"
proof (cases s)
  case Nil
  then show ?thesis by (simp add: hex_prefix_def)
next
  case (Cons c1 r)
  show ?thesis
  proof (cases r)
    case Nil
    with Cons show ?thesis by (simp add: hex_prefix_def)
  next
    case (Cons c2 r2)
    with \<open>s = c1 # r\<close> assms have "is_digit c2" by simp
    then have "c2 \<noteq> CHR ''x''" "c2 \<noteq> CHR ''X''"
      using digit_not_special by blast+
    with Cons \<open>s = c1 # r\<close> show ?thesis by (simp add: hex_prefix_def)
  qed
qed

lemma parseInt_str_digits:
  assumes "ds \<noteq> []" "\<forall>c \<in> set ds. is_digit c"
  shows "parseInt_str ds = Some (int (decimal ds))"
    and "parseInt_str (CHR ''-'' # ds) = Some (- int (decimal ds))"
proof -
  from assms have hd: "is_digit (hd ds)" by (cases ds) auto
  have tw: "takeWhile is_digit ds = ds" using assms by (simp add: takeWhile_eq_all_conv)
  have dw: "dropWhile is_ws ds = ds" using hd assms(1) digit_not_special
    by (cases ds) auto
  have nh: "\<not> hex_prefix ds" using assms all_digits_no_hex_prefix by blast
  show "parseInt_str ds = Some (int (decimal ds))"
    using assms(1) digit_not_special[OF hd]
    by (simp add: parseInt_str_def Let_def tw dw nh)
  have "\<not> is_ws (CHR ''-'')" by (simp add: is_ws_def)
  then show "parseInt_str (CHR ''-'' # ds) = Some (- int (decimal ds))"
    using assms(1) by (simp add: parseInt_str_def Let_def tw nh)
qed

text \<open>What \<^verbatim>\<open>toString\<close> writes, \<^verbatim>\<open>parseInt\<close> reads back.\<close>

lemma parseInt_str_toString: "parseInt_str (toString n) = Some n"
  using parseInt_str_digits[OF digits_of_nonempty digits_of_all_digits, of "nat n"]
        parseInt_str_digits[OF digits_of_nonempty digits_of_all_digits, of "nat (- n)"]
  by (simp add: toString_def decimal_digits_of)

lemmas number_string_eval = toString_def digits_of.simps digit_char_def char_of_eq_iff

section \<open>Rate limiting: four calls in one window\<close>

text \<open>
  Claim C5. With no bucket stored for the action \<^verbatim>\<open>x\<close>, four calls
  \<^verbatim>\<open>checkRateLimit("x", 3, 1000)\<close> at times \<open>t1 \<le> t2 \<le> t3 \<le> t4\<close>, the last one less
  than 1000 ms after the first, give: allowed with \<open>remaining\<close> 2, allowed with 1,
  allowed with 0, and then denied with a \<open>retryAfter\<close> above 0.
\<close>

theorem checkRateLimit_four_calls:
  assumes fresh: "getItem (sessionStorage b) ''rate_limit_x'' = None"
    and t: "0 \<le> t1" "t1 \<le> t2" "t2 \<le> t3" "t3 \<le> t4" "t4 < t1 + 1000"
  shows "\<exists>r1 b1 r2 b2 r3 b3 r4 b4.
     checkRateLimit ''x'' 3 1000 t1 b = Inr (r1, b1) \<and> allowed r1 \<and> remaining r1 = 2 \<and>
     checkRateLimit ''x'' 3 1000 t2 b1 = Inr (r2, b2) \<and> allowed r2 \<and> remaining r2 = 1 \<and>
     checkRateLimit ''x'' 3 1000 t3 b2 = Inr (r3, b3) \<and> allowed r3 \<and> remaining r3 = 0 \<and>
     checkRateLimit ''x'' 3 1000 t4 b3 = Inr (r4, b4) \<and> \<not> allowed r4 \<and>
     (\<exists>n. retryAfter r4 = Some n \<and> 0 < n)"
proof -
  define b1 where
    "b1 = b\<lparr> sessionStorage :=
              setItem (sessionStorage b) ''rate_limit_x'' (BucketJ 1 (t1 + 1000)) \<rparr>"
  define b2 where
    "b2 = b1\<lparr> sessionStorage :=
               setItem (sessionStorage b1) ''rate_limit_x'' (BucketJ 2 (t1 + 1000)) \<rparr>"
  define b3 where
    "b3 = b2\<lparr> sessionStorage :=
               setItem (sessionStorage b2) ''rate_limit_x'' (BucketJ 3 (t1 + 1000)) \<rparr>"
  have c1: "checkRateLimit ''x'' 3 1000 t1 b =
      Inr (\<lparr> allowed = True, remaining = 2, resetIn = 1000, retryAfter = None \<rparr>, b1)"
    using fresh by (simp add: checkRateLimit_def b1_def)
  have g1: "getItem (sessionStorage b1) ''rate_limit_x'' = Some (BucketJ 1 (t1 + 1000))"
    by (simp add: b1_def getItem_setItem)
  have c2: "checkRateLimit ''x'' 3 1000 t2 b1 =
      Inr (\<lparr> allowed = True, remaining = 1, resetIn = t1 + 1000 - t2, retryAfter = None \<rparr>, b2)"
    using g1 t by (simp add: checkRateLimit_def b2_def Let_def)
  have g2: "getItem (sessionStorage b2) ''rate_limit_x'' = Some (BucketJ 2 (t1 + 1000))"
    by (simp add: b2_def getItem_setItem)
  have c3: "checkRateLimit ''x'' 3 1000 t3 b2 =
      Inr (\<lparr> allowed = True, remaining = 0, resetIn = t1 + 1000 - t3, retryAfter = None \<rparr>, b3)"
    using g2 t by (simp add: checkRateLimit_def b3_def Let_def)
  have g3: "getItem (sessionStorage b3) ''rate_limit_x'' = Some (BucketJ 3 (t1 + 1000))"
    by (simp add: b3_def getItem_setItem)
  have c4: "checkRateLimit ''x'' 3 1000 t4 b3 =
      Inr (\<lparr> allowed = False, remaining = 0, resetIn = t1 + 1000 - t4,
             retryAfter = Some (ceil_div (t1 + 1000 - t4) 1000) \<rparr>, b3)"
    using g3 t by (simp add: checkRateLimit_def Let_def)
  have pos: "0 < ceil_div (t1 + 1000 - t4) 1000"
    using t by (simp add: ceil_div_def)
  show ?thesis
    using c1 c2 c3 c4 pos by simp
qed

theorem checkRateLimit_four_calls_witness:
  "getItem (sessionStorage empty_browser) ''rate_limit_x'' = None \<and>
   (0::int) \<le> 5000 \<and> (5000::int) \<le> 5100 \<and> (5100::int) \<le> 5200 \<and> (5200::int) \<le> 5999 \<and>
   (5999::int) < 5000 + 1000 \<and>
   (\<exists>r1 b1 r2 b2 r3 b3 r4 b4.
     checkRateLimit ''x'' 3 1000 5000 empty_browser = Inr (r1, b1) \<and>
     allowed r1 \<and> remaining r1 = 2 \<and>
     checkRateLimit ''x'' 3 1000 5100 b1 = Inr (r2, b2) \<and> allowed r2 \<and> remaining r2 = 1 \<and>
     checkRateLimit ''x'' 3 1000 5200 b2 = Inr (r3, b3) \<and> allowed r3 \<and> remaining r3 = 0 \<and>
     checkRateLimit ''x'' 3 1000 5999 b3 = Inr (r4, b4) \<and> \<not> allowed r4 \<and>
     (\<exists>n. retryAfter r4 = Some n \<and> 0 < n))"
proof -
  have f: "getItem (sessionStorage empty_browser) ''rate_limit_x'' = None"
    by (simp add: empty_browser_def getItem_def)
  show ?thesis
    using f checkRateLimit_four_calls [OF f, of 5000 5100 5200 5999] by simp
qed

text \<open>
  At exactly 1000 ms after the first call the bucket is still the same one (the window
  ends when \<^verbatim>\<open>now > resetTime\<close>), and the fourth call is denied with \<open>retryAfter = 0\<close>.
\<close>

lemma checkRateLimit_at_window_end:
  "checkRateLimit ''x'' 3 1000 6000
     (empty_browser\<lparr> sessionStorage := [(''rate_limit_x'', BucketJ 3 6000)] \<rparr>) =
   Inr (\<lparr> allowed = False, remaining = 0, resetIn = 0, retryAfter = Some 0 \<rparr>,
        empty_browser\<lparr> sessionStorage := [(''rate_limit_x'', BucketJ 3 6000)] \<rparr>)"
  by (simp add: checkRateLimit_def getItem_def empty_browser_def ceil_div_def)

section \<open>The CSRF token and its two copies\<close>

text \<open>
  Claim C9. A call of \<^verbatim>\<open>generateCSRFToken\<close> that returns the token \<open>t\<close> leaves \<open>t\<close>
  under \<^verbatim>\<open>csrf_token\<close> in the durable and in the volatile store, and the call time plus
  one hour (3600000 ms), as a decimal string, under the durable \<^verbatim>\<open>csrf_token_expires\<close>.
\<close>

theorem generateCSRFToken_copies:
  assumes "generateCSRFToken rnd now b = (Some t, b')"
  shows "getItem (localStorage b') ''csrf_token'' = Some (Text t) \<and>
         getItem (sessionStorage b') ''csrf_token'' = Some (Text t) \<and>
         getItem (localStorage b') ''csrf_token_expires'' = Some (Text (toString (now + 3600000)))"
  using assms by (auto simp: generateCSRFToken_def Let_def getItem_setItem)

theorem generateCSRFToken_copies_witness:
  "generateCSRFToken (Crypto (\<lambda>i. 27)) 1000 empty_browser =
     (Some (replicate 32 (CHR ''b'')),
      empty_browser\<lparr>
        localStorage := [(''csrf_token'', Text (replicate 32 (CHR ''b''))),
                         (''csrf_token_expires'', Text ''3601000'')],
        sessionStorage := [(''csrf_token'', Text (replicate 32 (CHR ''b'')))] \<rparr>) \<and>
   getItem [(''csrf_token'', Text (replicate 32 (CHR ''b''))),
            (''csrf_token_expires'', Text ''3601000'')] ''csrf_token_expires''
     = Some (Text (toString (1000 + 3600000)))"
proof -
  have tok: "generateRandomString 32 (Crypto (\<lambda>i. 27)) = replicate 32 (CHR ''b'')"
    by (simp add: chars_def map_replicate_const)
  have ts: "toString 3601000 = ''3601000''"
    by (simp add: number_string_eval)
  have call: "generateCSRFToken (Crypto (\<lambda>i. 27)) 1000 empty_browser =
     (Some (replicate 32 (CHR ''b'')),
      empty_browser\<lparr>
        localStorage := [(''csrf_token'', Text (replicate 32 (CHR ''b''))),
                         (''csrf_token_expires'', Text ''3601000'')],
        sessionStorage := [(''csrf_token'', Text (replicate 32 (CHR ''b'')))] \<rparr>)"
    unfolding generateCSRFToken_def Let_def tok
    by (simp add: ts setItem_def empty_browser_def)
  show ?thesis
    using call generateCSRFToken_copies [OF call] by simp
qed

section \<open>Sessions: renewal, validation and expiry\<close>

lemma updateSessionActivity_session:
  assumes "getItem (localStorage b) ''user_session'' = Some (SessionJ s)"
  shows "updateSessionActivity this now b =
           b\<lparr> localStorage := setItem (localStorage b) ''user_session''
                                 (SessionJ (renewed this now s)) \<rparr>"
  using assms by (simp add: updateSessionActivity_def Let_def renewed_def)

lemma sessionStorage_updateSessionActivity:
  "sessionStorage (updateSessionActivity this now b) = sessionStorage b"
  by (simp add: updateSessionActivity_def Let_def split: option.splits sval.splits)

lemma destroySession_no_session:
  "getItem (localStorage (destroySession b)) ''user_session'' = None"
  by (simp add: destroySession_def Let_def getItem_removeItem)

text \<open>
  Claim C6. When \<^verbatim>\<open>validateSession\<close> succeeds at time \<open>now\<close> (it returns the user data
  \<open>u\<close>), the stored session is the one that was stored before with \<open>lastActivity\<close> set
  to \<open>now\<close>, and with \<open>expires\<close> set to \<open>now + sessionDuration\<close> exactly when less than
  80% of the duration has passed since \<open>created\<close>; otherwise \<open>expires\<close> is unchanged.
\<close>

theorem validateSession_renewal:
  assumes "validateSession this now b = (Some u, b')"
  shows "\<exists>s. getItem (localStorage b) ''user_session'' = Some (SessionJ s) \<and>
             u = user s \<and>
             getItem (localStorage b') ''user_session'' =
               Some (SessionJ (s\<lparr> lastActivity := Some now,
                       expires := (if 10 * (now - created s) < 8 * sessionDuration this
                                   then now + sessionDuration this else expires s) \<rparr>))"
proof (cases "getItem (localStorage b) ''user_session''")
  case None
  with assms show ?thesis by (simp add: validateSession_def)
next
  case (Some v)
  show ?thesis
  proof (cases v)
    case (SessionJ s)
    with Some assms have res: "u = user s" "b' = updateSessionActivity this now b"
      by (auto simp: validateSession_def split: if_splits)
    from Some SessionJ have
      "getItem (localStorage (updateSessionActivity this now b)) ''user_session'' =
         Some (SessionJ (s\<lparr> lastActivity := Some now,
                 expires := (if 10 * (now - created s) < 8 * sessionDuration this
                             then now + sessionDuration this else expires s) \<rparr>))"
      by (simp add: updateSessionActivity_def Let_def getItem_setItem)
    with Some SessionJ res show ?thesis by simp
  qed (use Some assms in \<open>simp_all add: validateSession_def\<close>)
qed

theorem validateSession_renewal_witness:
  "validateSession new_SecuritySystem 2000 session_browser =
     (Some (JStr ''alice''),
      session_browser\<lparr> localStorage :=
        [(''user_session'',
          SessionJ (example_session\<lparr> lastActivity := Some 2000, expires := 86402000 \<rparr>))] \<rparr>) \<and>
   (\<exists>s. getItem (localStorage session_browser) ''user_session'' = Some (SessionJ s) \<and>
        10 * (2000 - created s) < 8 * sessionDuration new_SecuritySystem)"
proof -
  have call: "validateSession new_SecuritySystem 2000 session_browser =
     (Some (JStr ''alice''),
      session_browser\<lparr> localStorage :=
        [(''user_session'',
          SessionJ (example_session\<lparr> lastActivity := Some 2000, expires := 86402000 \<rparr>))] \<rparr>)"
    by (simp add: validateSession_def updateSessionActivity_def session_browser_def
          example_session_def new_SecuritySystem_def empty_browser_def getItem_def
          setItem_def Let_def)
  have early: "10 * (2000 - created example_session) < 8 * sessionDuration new_SecuritySystem"
    by (simp add: example_session_def new_SecuritySystem_def)
  have stored: "getItem (localStorage session_browser) ''user_session'' =
                  Some (SessionJ example_session)"
    by (simp add: session_browser_def getItem_def)
  show ?thesis
    using call early stored validateSession_renewal [OF call] by auto
qed

text \<open>Past 80% of the duration the same call leaves \<open>expires\<close> as it was.\<close>

lemma validateSession_late_no_renewal:
  "validateSession new_SecuritySystem 80000000 session_browser =
     (Some (JStr ''alice''),
      session_browser\<lparr> localStorage :=
        [(''user_session'',
          SessionJ (example_session\<lparr> lastActivity := Some 80000000 \<rparr>))] \<rparr>)"
  by (simp add: validateSession_def updateSessionActivity_def session_browser_def
        example_session_def new_SecuritySystem_def empty_browser_def getItem_def
        setItem_def Let_def)

text \<open>
  Claim C7. \<^verbatim>\<open>createSession\<close> is declared without \<^verbatim>\<open>async\<close> and awaits
  \<^verbatim>\<open>getClientIP()\<close> in its body: the script is a syntax error, and no call of
  \<^verbatim>\<open>createSession\<close> returns a session id or writes a session, for any user data
  and in any browser.
\<close>

theorem createSession_never_returns:
  "createSession this rnd response now later userData b = Inl SyntaxError"
  by (simp add: createSession_def parses_def)

text \<open>
  What the body does in a method that is declared \<^verbatim>\<open>async\<close>: a
  \<^verbatim>\<open>validateSession()\<close> within the session duration returns \<open>userData\<close>; when the
  durable record's \<open>expires\<close> is then set to a time \<open>e\<close> in the past, the next
  \<^verbatim>\<open>validateSession()\<close> returns \<^verbatim>\<open>false\<close> and the durable store has no
  \<^verbatim>\<open>user_session\<close> afterwards.
\<close>

lemma createSession_body_roundtrip:
  assumes create: "createSession_body this rnd response now later userData b = (Some i, b1)"
    and times: "now \<le> later" "t \<le> now + sessionDuration this"
    and first: "validateSession this t b1 = (r, b2)"
    and past: "e < t'"
    and second: "validateSession this t' (set_expires e b2) = (r', b3)"
  shows "r = Some userData \<and> r' = None \<and> getItem (localStorage b3) ''user_session'' = None"
proof -
  define s0 where
    "s0 = \<lparr> sid = i, user = userData, created = now, expires = now + sessionDuration this,
            ip = getClientIP response, userAgent = nav_userAgent b, lastActivity = None \<rparr>"
  define s1 where "s1 = renewed this later s0"
  define s2 where "s2 = renewed this t s1"
  define c where
    "c = b\<lparr> localStorage := setItem (localStorage b) ''user_session'' (SessionJ s0),
            sessionStorage := setItem (sessionStorage b) ''session_id'' (Text i) \<rparr>"
  from create have i: "i = generateRandomString 64 rnd"
    and b1: "b1 = updateSessionActivity this later c"
    by (auto simp: createSession_body_def Let_def c_def s0_def)
  have "getItem (localStorage c) ''user_session'' = Some (SessionJ s0)"
    by (simp add: c_def getItem_setItem)
  then have b1': "b1 = c\<lparr> localStorage := setItem (localStorage c) ''user_session'' (SessionJ s1) \<rparr>"
    unfolding b1 s1_def by (rule updateSessionActivity_session)
  have l1: "getItem (localStorage b1) ''user_session'' = Some (SessionJ s1)"
    by (simp add: b1' getItem_setItem)
  have v1: "getItem (sessionStorage b1) ''session_id'' = Some (Text (sid s1))"
    by (simp add: b1' c_def getItem_setItem s1_def renewed_def s0_def)
  have live: "\<not> t > expires s1"
    using times by (simp add: s1_def renewed_def s0_def)
  have u1: "user s1 = userData"
    by (simp add: s1_def renewed_def s0_def)
  from first l1 v1 live u1 have r: "r = Some userData"
    and b2: "b2 = updateSessionActivity this t b1"
    by (simp_all add: validateSession_def)
  have b2': "b2 = b1\<lparr> localStorage := setItem (localStorage b1) ''user_session'' (SessionJ s2) \<rparr>"
    unfolding b2 s2_def using l1 by (rule updateSessionActivity_session)
  have l2: "getItem (localStorage b2) ''user_session'' = Some (SessionJ s2)"
    by (simp add: b2' getItem_setItem)
  then have l3: "getItem (localStorage (set_expires e b2)) ''user_session'' =
                   Some (SessionJ (s2\<lparr> expires := e \<rparr>))"
    by (simp add: set_expires_def getItem_setItem)
  from second l3 past have r': "r' = None" and b3: "b3 = destroySession (set_expires e b2)"
    by (simp_all add: validateSession_def)
  show ?thesis
    using r r' by (simp add: b3 destroySession_no_session)
qed


section \<open>Drawing winners without replacement\<close>

lemma random_index_less: "0 < n \<Longrightarrow> random_index u n < n"
proof -
  assume n: "0 < n"
  have "unat u < 2 ^ 32" using unsigned_less [of u, where ?'a = nat] by simp
  then have "unat u * n < 2 ^ 32 * n" using n by simp
  then show ?thesis
    unfolding random_index_def by (simp add: less_mult_imp_div_less mult.commute)
qed

lemma mset_remove_nth:
  "r < length xs \<Longrightarrow> mset (take r xs @ drop (Suc r) xs) + {#xs ! r#} = mset xs"
proof -
  assume "r < length xs"
  then have "xs = take r xs @ xs ! r # drop (Suc r) xs" by (rule id_take_nth_drop)
  then have "mset xs = mset (take r xs @ xs ! r # drop (Suc r) xs)" by simp
  then show ?thesis by simp
qed

lemma found_winner_id:
  "i \<in> user_id ` set ps \<Longrightarrow> w_user_id (found_winner ps i) = i"
proof -
  assume "i \<in> user_id ` set ps"
  then obtain p where "find (\<lambda>p. user_id p = i) ps = Some p"
    by (cases "find (\<lambda>p. user_id p = i) ps") (auto simp: find_None_iff)
  moreover from this have "user_id p = i" by (auto simp: find_Some_iff)
  ultimately show ?thesis by (simp add: found_winner_def winner_of_def)
qed

lemma draw_sound:
  assumes "n \<le> length ids" "set ids \<subseteq> user_id ` set ps"
  shows "\<exists>js. draw n i rnd ps ids ws = Inr (ws @ map (found_winner ps) js) \<and>
              length js = n \<and> mset js \<subseteq># mset ids"
  using assms
proof (induction n arbitrary: i ids ws)
  case 0
  then show ?case by simp
next
  case (Suc n)
  let ?r = "random_index (rnd i) (length ids)"
  let ?ids = "take ?r ids @ drop (Suc ?r) ids"
  from Suc.prems have pos: "0 < length ids" by (cases ids) simp_all
  then have r: "?r < length ids" by (rule random_index_less)
  then have "ids ! ?r \<in> set ids" by simp
  with Suc.prems(2) have "ids ! ?r \<in> user_id ` set ps" by blast
  then have "find (\<lambda>p. user_id p = ids ! ?r) ps \<noteq> None"
    by (auto simp: find_None_iff)
  then obtain p where p: "find (\<lambda>p. user_id p = ids ! ?r) ps = Some p"
    by blast
  then have w: "winner_of p = found_winner ps (ids ! ?r)"
    by (simp add: found_winner_def)
  have len: "n \<le> length ?ids" using Suc.prems r by simp
  have sub: "set ?ids \<subseteq> user_id ` set ps"
    using Suc.prems(2) by (auto dest: in_set_takeD in_set_dropD)
  from Suc.IH [OF len sub, of "Suc i" "ws @ [winner_of p]"]
  obtain js where js: "draw n (Suc i) rnd ps ?ids (ws @ [winner_of p]) =
                         Inr ((ws @ [winner_of p]) @ map (found_winner ps) js)"
    "length js = n" "mset js \<subseteq># mset ?ids"
    by blast
  have "draw (Suc n) i rnd ps ids ws = Inr (ws @ map (found_winner ps) (ids ! ?r # js))"
    using r p js(1) w by (simp add: Let_def)
  moreover have "mset (ids ! ?r # js) \<subseteq># mset ids"
  proof -
    have "mset (ids ! ?r # js) = mset js + {#ids ! ?r#}" by simp
    also have "\<dots> \<subseteq># mset ?ids + {#ids ! ?r#}" using js(3) by simp
    also have "\<dots> = mset ids" using r by (rule mset_remove_nth)
    finally show ?thesis .
  qed
  ultimately show ?case using js(2) by (intro exI [of _ "ids ! ?r # js"]) simp
qed

lemma save_winners_returns:
  "Thrown \<notin> set (take (length ws) os) \<Longrightarrow> fst (save_winners ws os saved) = None"
  by (induction ws os saved rule: save_winners.induct) simp_all

lemma find_self:
  "distinct (map user_id ps) \<Longrightarrow> p \<in> set ps \<Longrightarrow> find (\<lambda>q. user_id q = user_id p) ps = Some p"
  by (induction ps) auto

lemma selectWinners_all:
  assumes ps: "ps \<noteq> []" and k: "int (length ps) \<le> k"
    and ins: "Thrown \<notin> set (take (length ps) inserts)"
  shows "\<exists>ws saved. selectWinners (Reply k) (Reply (Some ps)) rnd inserts = (Success ws, saved) \<and>
           length ws = length ps \<and>
           mset (map w_user_id ws) = mset (map user_id ps) \<and>
           (distinct (map user_id ps) \<longrightarrow> mset ws = mset (map winner_of ps))"
proof -
  let ?ids = "map user_id ps"
  have n: "nat (min k (int (length ps))) = length ps" using k by simp
  from draw_sound [of "length ?ids" ?ids ps 0 rnd "[]"]
  obtain js where js: "draw (length ?ids) 0 rnd ps ?ids [] = Inr (map (found_winner ps) js)"
    "length js = length ?ids" "mset js \<subseteq># mset ?ids"
    by auto
  from js(2,3) have eq: "mset js = mset ?ids"
    by (metis size_mset subset_mset.less_le mset_subset_size less_irrefl)
  let ?ws = "map (found_winner ps) js"
  from ins js(2) have "Thrown \<notin> set (take (length ?ws) inserts)" by simp
  from save_winners_returns [OF this, of "[]"]
  obtain saved where sv: "save_winners ?ws inserts [] = (None, saved)"
    by (cases "save_winners ?ws inserts []") auto
  have call: "selectWinners (Reply k) (Reply (Some ps)) rnd inserts = (Success ?ws, saved)"
    using ps js(1) sv by (simp add: selectWinners_def Let_def n)
  have "set js = set ?ids" using eq by (metis set_mset_mset)
  then have "\<forall>j \<in> set js. w_user_id (found_winner ps j) = j"
    by (simp add: found_winner_id)
  then have ids: "map w_user_id ?ws = js"
    by (simp add: map_idI)
  have d: "mset ?ws = mset (map winner_of ps)" if "distinct (map user_id ps)"
  proof -
    have "mset ?ws = image_mset (found_winner ps) (mset js)" by simp
    also have "\<dots> = image_mset (found_winner ps) (mset ?ids)" by (simp only: eq)
    also have "\<dots> = mset (map (\<lambda>p. found_winner ps (user_id p)) ps)" by (simp add: multiset.map_comp comp_def)
    also have "map (\<lambda>p. found_winner ps (user_id p)) ps = map winner_of ps"
      using that by (auto simp: found_winner_def find_self)
    finally show ?thesis .
  qed
  have m: "mset (map w_user_id ?ws) = mset (map user_id ps)"
    by (simp only: ids eq)
  have l: "length ?ws = length ps" using js(2) by simp
  show ?thesis
    by (intro exI [of _ ?ws] exI [of _ saved] conjI impI call l m d)
qed


text \<open>
  Claim C8. For three participants, when the reads succeed and no insert promise
  rejects: with a requested count of 3 the winners returned are three, their user ids
  are the participants' user ids with the same multiplicities, and (for participants
  with distinct user ids) the winner objects are exactly those of the three
  participants, each once, in some order; with a requested count of 5, three winners
  are returned.
\<close>

theorem selectWinners_three_participants:
  assumes "length ps = 3"
    and "Thrown \<notin> set (take 3 inserts)" and "Thrown \<notin> set (take 3 inserts')"
  shows "(\<exists>ws saved.
            selectWinners (Reply 3) (Reply (Some ps)) rnd inserts = (Success ws, saved) \<and>
            length ws = 3 \<and>
            mset (map w_user_id ws) = mset (map user_id ps) \<and>
            (distinct (map user_id ps) \<longrightarrow> mset ws = mset (map winner_of ps))) \<and>
         (\<exists>ws saved.
            selectWinners (Reply 5) (Reply (Some ps)) rnd' inserts' = (Success ws, saved) \<and>
            length ws = 3)"
proof -
  from assms(1) have ne: "ps \<noteq> []" by auto
  have "\<exists>ws saved.
            selectWinners (Reply 3) (Reply (Some ps)) rnd inserts = (Success ws, saved) \<and>
            length ws = length ps \<and>
            mset (map w_user_id ws) = mset (map user_id ps) \<and>
            (distinct (map user_id ps) \<longrightarrow> mset ws = mset (map winner_of ps))"
    using assms by (intro selectWinners_all ne) simp_all
  moreover have "\<exists>ws saved.
            selectWinners (Reply 5) (Reply (Some ps)) rnd' inserts' = (Success ws, saved) \<and>
            length ws = length ps \<and>
            mset (map w_user_id ws) = mset (map user_id ps) \<and>
            (distinct (map user_id ps) \<longrightarrow> mset ws = mset (map winner_of ps))"
    using assms by (intro selectWinners_all ne) simp_all
  ultimately show ?thesis
    unfolding assms(1) by blast
qed

lemma draw_example:
  "draw 3 0 (\<lambda>i. 0x80000000) three_participants [''u1'', ''u2'', ''u3''] [] =
     Inr [\<lparr> w_user_id = ''u2'', w_username = None, w_telegram_tag = None \<rparr>,
          \<lparr> w_user_id = ''u3'', w_username = Some ''cy'', w_telegram_tag = Some ''@cy'' \<rparr>,
          \<lparr> w_user_id = ''u1'', w_username = Some ''ann'', w_telegram_tag = None \<rparr>]"
  by (simp add: numeral_3_eq_3 random_index_def three_participants_def winner_of_def Let_def)

theorem selectWinners_three_participants_witness:
  "length three_participants = 3 \<and> Thrown \<notin> set (take 3 [Served, Failed]) \<and>
   Thrown \<notin> set (take 3 ([] :: outcome list)) \<and>
   selectWinners (Reply 3) (Reply (Some three_participants)) (\<lambda>i. 0x80000000) [Served, Failed] =
     (Success [\<lparr> w_user_id = ''u2'', w_username = None, w_telegram_tag = None \<rparr>,
               \<lparr> w_user_id = ''u3'', w_username = Some ''cy'', w_telegram_tag = Some ''@cy'' \<rparr>,
               \<lparr> w_user_id = ''u1'', w_username = Some ''ann'', w_telegram_tag = None \<rparr>],
      [''u2'', ''u1'']) \<and>
   (\<exists>ws saved.
      selectWinners (Reply 5) (Reply (Some three_participants)) (\<lambda>i. 0) [] = (Success ws, saved) \<and>
      length ws = 3)"
proof -
  have l: "length three_participants = 3" by (simp add: three_participants_def)
  have ids: "map user_id three_participants = [''u1'', ''u2'', ''u3'']"
    by (simp add: three_participants_def)
  have ne: "three_participants \<noteq> []" by (simp add: three_participants_def)
  have call: "selectWinners (Reply 3) (Reply (Some three_participants)) (\<lambda>i. 0x80000000)
                [Served, Failed] =
     (Success [\<lparr> w_user_id = ''u2'', w_username = None, w_telegram_tag = None \<rparr>,
               \<lparr> w_user_id = ''u3'', w_username = Some ''cy'', w_telegram_tag = Some ''@cy'' \<rparr>,
               \<lparr> w_user_id = ''u1'', w_username = Some ''ann'', w_telegram_tag = None \<rparr>],
      [''u2'', ''u1''])"
    by (simp add: selectWinners_def Let_def ne ids l draw_example)
  show ?thesis
    using l call
      selectWinners_three_participants [OF l, of "[Served, Failed]" "[]" "\<lambda>i. 0x80000000" "\<lambda>i. 0"]
    by simp
qed

section \<open>Counters: reading a counter nobody has counted\<close>

text \<open>
  Claim C10. For a counter with no entry in the local store and no row in the remote
  table, \<^verbatim>\<open>getCounterValue\<close> resolves to 0 (it does not reject), in either mode and
  whatever the network answers to the remote read (served, error, rejected promise).
\<close>

theorem getCounterValue_unknown_counter:
  assumes "getItem (localStorage s) (localStoragePrefix @ cid) = None"
    and "page_counters s cid = None"
  shows "fst (getCounterValue cid s) = Inr 0"
  using assms
  by (auto simp: getCounterValue_def select_count_def next_outcome_def parseInt_or0_def Let_def
           split: list.splits outcome.splits)

theorem getCounterValue_unknown_counter_witness:
  "getItem (localStorage (fresh_system\<lparr> fallbackEnabled := False, initialized := True,
                                          script := [Thrown] \<rparr>))
           (localStoragePrefix @ ''main_page_visits'') = None \<and>
   page_counters (fresh_system\<lparr> fallbackEnabled := False, initialized := True,
                                 script := [Thrown] \<rparr>) ''main_page_visits'' = None \<and>
   fst (getCounterValue ''main_page_visits''
          (fresh_system\<lparr> fallbackEnabled := False, initialized := True,
                         script := [Thrown] \<rparr>)) = Inr 0"
proof -
  let ?s = "fresh_system\<lparr> fallbackEnabled := False, initialized := True, script := [Thrown] \<rparr>"
  have l: "getItem (localStorage ?s) (localStoragePrefix @ ''main_page_visits'') = None"
    by (simp add: fresh_system_def new_CounterSystem_def empty_browser_def getItem_def)
  have r: "page_counters ?s ''main_page_visits'' = None"
    by (simp add: fresh_system_def new_CounterSystem_def)
  show ?thesis
    using l r getCounterValue_unknown_counter [OF l r] by simp
qed

section \<open>Counters: initialization and the pending queue\<close>

lemmas local_eval = incrementLocal_def parseInt_or0_def getItem_def setItem_def Let_def
  localStoragePrefix_def sessionPrefix_def number_string_eval

lemma queued: "incrementCounter ''a'' JNull fresh_system =
  (Inr 1, fresh_system\<lparr> pendingIncrements := [(''a'', JNull)],
     localStorage := [(''fresko_counter_a'', Text ''1''),
                      (''fresko_counter_a_details'', DetailsJ 0 ''UA'' [] JNull)] \<rparr>)"
  by (simp add: incrementCounter_def fresh_system_def new_CounterSystem_def empty_browser_def
       local_eval)

text \<open>
  Claim C3, at the input where it fails. One increment is queued before
  initialization and the probe's promise rejects: \<^verbatim>\<open>initialize\<close> ends with the engine
  initialized, but the catch block does not run the loop over the queue, and the queued
  increment is still there.
\<close>

theorem initialize_probe_throws_queue_left:
  "initialized (snd (initialize
      ((snd (incrementCounter ''a'' JNull fresh_system))\<lparr> script := [Thrown] \<rparr>))) \<and>
   pendingIncrements (snd (initialize
      ((snd (incrementCounter ''a'' JNull fresh_system))\<lparr> script := [Thrown] \<rparr>))) =
     [(''a'', JNull)]"
  by (simp add: queued initialize_def next_outcome_def)

section \<open>Counters: frames of the operations\<close>

lemma next_outcome_state: "snd (next_outcome s) = s\<lparr> script := tl (script s) \<rparr>"
  by (cases "script s") (simp_all add: next_outcome_def)

lemma select_count_state: "snd (select_count cid s) = s\<lparr> script := tl (script s) \<rparr>"
  by (cases "script s") (auto simp: select_count_def next_outcome_def split: outcome.splits)

lemma insert_row_frame:
  "localStorage (snd (insert_row cid c s)) = localStorage s"
  "sessionStorage (snd (insert_row cid c s)) = sessionStorage s"
  "fallbackEnabled (snd (insert_row cid c s)) = fallbackEnabled s"
  "initialized (snd (insert_row cid c s)) = initialized s"
  "pendingIncrements (snd (insert_row cid c s)) = pendingIncrements s"
  "clock (snd (insert_row cid c s)) = clock s"
  "nav_userAgent (snd (insert_row cid c s)) = nav_userAgent s"
  "doc_referrer (snd (insert_row cid c s)) = doc_referrer s"
  by (auto simp: insert_row_def next_outcome_def split: list.splits outcome.splits)

lemma update_row_frame:
  "localStorage (snd (update_row cid c s)) = localStorage s"
  "sessionStorage (snd (update_row cid c s)) = sessionStorage s"
  "fallbackEnabled (snd (update_row cid c s)) = fallbackEnabled s"
  "initialized (snd (update_row cid c s)) = initialized s"
  "pendingIncrements (snd (update_row cid c s)) = pendingIncrements s"
  "clock (snd (update_row cid c s)) = clock s"
  "nav_userAgent (snd (update_row cid c s)) = nav_userAgent s"
  "doc_referrer (snd (update_row cid c s)) = doc_referrer s"
  by (auto simp: update_row_def next_outcome_def split: list.splits outcome.splits)

lemma increment_remote_frame:
  "localStorage (snd (increment_remote cid opts s)) = localStorage s"
  "sessionStorage (snd (increment_remote cid opts s)) = sessionStorage s"
  "fallbackEnabled (snd (increment_remote cid opts s)) = fallbackEnabled s"
  "initialized (snd (increment_remote cid opts s)) = initialized s"
  "pendingIncrements (snd (increment_remote cid opts s)) = pendingIncrements s"
  "clock (snd (increment_remote cid opts s)) = clock s"
  "nav_userAgent (snd (increment_remote cid opts s)) = nav_userAgent s"
  "doc_referrer (snd (increment_remote cid opts s)) = doc_referrer s"
  unfolding increment_remote_def
  by (auto simp: insert_row_frame update_row_frame select_count_state
           split: prod.splits sum.splits option.splits
           dest!: arg_cong [where f = snd])

lemma parseInt_or0_toString: "parseInt_or0 (Some (Text (toString n))) = n"
  by (simp add: parseInt_or0_def parseInt_str_toString)

lemma incrementLocal_state:
  "snd (incrementLocal cid opts s) =
     s\<lparr> localStorage :=
          setItem (setItem (localStorage s) (localStoragePrefix @ cid)
                     (Text (toString (local_count s cid + 1))))
            (localStoragePrefix @ cid @ ''_details'')
            (DetailsJ (clock s) (nav_userAgent s) (doc_referrer s) opts) \<rparr>"
  "fst (incrementLocal cid opts s) = local_count s cid + 1"
  by (simp_all add: incrementLocal_def Let_def local_count_def)

lemma local_count_cong: "localStorage s' = localStorage s \<Longrightarrow> local_count s' a = local_count s a"
  by (simp add: local_count_def)

lemma local_count_incrementLocal_same:
  "local_count (snd (incrementLocal cid opts s)) cid = local_count s cid + 1"
  by (simp add: incrementLocal_state(1) local_count_def [of "_\<lparr> localStorage := _ \<rparr>"]
        getItem_setItem parseInt_or0_toString)

lemma local_count_incrementLocal_other:
  assumes "a \<noteq> cid" "\<not> suffix ''_details'' a"
  shows "local_count (snd (incrementLocal cid opts s)) a = local_count s a"
proof -
  have "a \<noteq> cid @ ''_details''" using assms(2) by (auto simp: suffix_def)
  with assms(1) show ?thesis
    by (simp add: incrementLocal_state(1) local_count_def getItem_setItem)
qed

lemma local_count_incrementLocal_mono:
  "\<not> suffix ''_details'' a \<Longrightarrow> local_count s a \<le> local_count (snd (incrementLocal cid opts s)) a"
  by (cases "a = cid")
     (simp_all add: local_count_incrementLocal_same local_count_incrementLocal_other)

lemma saveToHistory_state:
  "\<exists>ls. saveToHistory cid opts s = s\<lparr> localStorage := ls \<rparr> \<and>
        (\<forall>k. k \<noteq> localStoragePrefix @ cid @ ''_history'' \<longrightarrow>
               getItem ls k = getItem (localStorage s) k)"
proof (cases "getItem (localStorage s) (localStoragePrefix @ cid @ ''_history'')")
  case None
  then show ?thesis
    by (intro exI [of _ "localStorage (saveToHistory cid opts s)"])
       (simp add: saveToHistory_def Let_def getItem_setItem)
next
  case (Some v)
  then show ?thesis
    by (intro exI [of _ "localStorage (saveToHistory cid opts s)"])
       (cases v; simp add: saveToHistory_def Let_def getItem_setItem)
qed

lemma local_count_saveToHistory:
  assumes "\<not> suffix ''_history'' a"
  shows "local_count (saveToHistory cid opts s) a = local_count s a"
proof -
  have "a \<noteq> cid @ ''_history''" using assms by (auto simp: suffix_def)
  moreover obtain ls where "saveToHistory cid opts s = s\<lparr> localStorage := ls \<rparr>"
    "\<forall>k. k \<noteq> localStoragePrefix @ cid @ ''_history'' \<longrightarrow> getItem ls k = getItem (localStorage s) k"
    using saveToHistory_state by blast
  ultimately show ?thesis by (simp add: local_count_def)
qed

lemma not_lowered_refl: "not_lowered t t"
  by (simp add: not_lowered_def)

lemma not_lowered_trans: "not_lowered t t' \<Longrightarrow> not_lowered t' t'' \<Longrightarrow> not_lowered t t''"
  unfolding not_lowered_def by (metis order_trans)

lemma not_lowered_upd:
  "(case t cid of None \<Rightarrow> True | Some c \<Rightarrow> c \<le> c') \<Longrightarrow> not_lowered t (t(cid \<mapsto> c'))"
  by (auto simp: not_lowered_def split: option.splits)

lemma insert_row_not_lowered:
  "not_lowered (page_counters s) (page_counters (snd (insert_row cid c s)))"
  by (auto simp: insert_row_def next_outcome_def not_lowered_refl not_lowered_upd
           split: list.splits outcome.splits)

lemma update_row_not_lowered:
  "(case page_counters s cid of None \<Rightarrow> True | Some c0 \<Rightarrow> c0 \<le> c) \<Longrightarrow>
   not_lowered (page_counters s) (page_counters (snd (update_row cid c s)))"
  by (auto simp: update_row_def next_outcome_def not_lowered_refl not_lowered_upd
           split: list.splits outcome.splits)

lemma select_count_Some:
  "fst (select_count cid s) = Inr (Some c) \<Longrightarrow> page_counters s cid = Some c"
  by (auto simp: select_count_def next_outcome_def split: list.splits outcome.splits)

lemma page_counters_select_count:
  "page_counters (snd (select_count cid s)) = page_counters s"
  by (simp add: select_count_state)

lemma increment_remote_not_lowered:
  "not_lowered (page_counters s) (page_counters (snd (increment_remote cid opts s)))"
proof (cases "fallbackEnabled s")
  case True
  then show ?thesis by (simp add: increment_remote_def not_lowered_refl)
next
  case False
  obtain r s1 where sel: "select_count cid s = (r, s1)" by (cases "select_count cid s")
  then have s1: "page_counters s1 = page_counters s"
    using page_counters_select_count [of cid s] by simp
  show ?thesis
  proof (cases r)
    case (Inl e)
    with False sel s1 show ?thesis by (simp add: increment_remote_def not_lowered_refl)
  next
    case (Inr found)
    show ?thesis
    proof (cases found)
      case None
      have "not_lowered (page_counters s1) (page_counters (snd (insert_row cid 1 s1)))"
        by (rule insert_row_not_lowered)
      with False sel Inr None s1 show ?thesis
        by (auto simp: increment_remote_def not_lowered_refl
                 split: prod.splits option.splits sum.splits)
    next
      case (Some c)
      with sel Inr have "page_counters s cid = Some c"
        using select_count_Some [of cid s c] by simp
      with s1 have "not_lowered (page_counters s1) (page_counters (snd (update_row cid (c + 1) s1)))"
        by (intro update_row_not_lowered) simp
      with False sel Inr Some s1 show ?thesis
        by (auto simp: increment_remote_def split: prod.splits option.splits)
    qed
  qed
qed

lemma pageName_or_returns: "opts \<noteq> JNull \<Longrightarrow> \<exists>p. pageName_or opts cid = Inr p"
  by (cases opts) (auto split: option.splits)

lemma increment_remote_returns:
  assumes "Thrown \<notin> set (take 2 (script s))" and "opts \<noteq> JNull"
  shows "\<exists>n. fst (increment_remote cid opts s) = Inr n"
proof -
  obtain p where "pageName_or opts cid = Inr p"
    using pageName_or_returns [OF assms(2)] by blast
  with assms(1) show ?thesis
    by (cases "script s"; cases "tl (script s)")
       (auto simp: increment_remote_def select_count_def insert_row_def update_row_def
               next_outcome_def split: outcome.splits option.splits list.splits)
qed

lemma getCounterValue_state:
  "snd (getCounterValue cid s) =
     (if \<not> fallbackEnabled s \<and> initialized s then s\<lparr> script := tl (script s) \<rparr> else s)"
proof -
  obtain r s1 where sel: "select_count cid s = (r, s1)" by (cases "select_count cid s")
  then have "s1 = s\<lparr> script := tl (script s) \<rparr>"
    using select_count_state [of cid s] by simp
  with sel show ?thesis
    by (auto simp: getCounterValue_def Let_def split: sum.splits option.splits)
qed

lemma getCounterValue_returns: "\<exists>v. fst (getCounterValue cid s) = Inr v"
  by (auto simp: getCounterValue_def Let_def split: prod.splits sum.splits option.splits)

section \<open>Counters: at most one increment for each browsing session\<close>

lemma incrementCounter_flagged:
  assumes "initialized s" "truthy (getItem (sessionStorage s) (sessionPrefix @ cid))"
  shows "incrementCounter cid opts s = getCounterValue cid s"
proof -
  obtain v where "fst (getCounterValue cid s) = Inr v"
    using getCounterValue_returns by blast
  then obtain t where "getCounterValue cid s = (Inr v, t)"
    by (cases "getCounterValue cid s") simp
  with assms show ?thesis
    by (simp add: incrementCounter_def Let_def)
qed

lemma saveToHistory_frame:
  "sessionStorage (saveToHistory cid opts s) = sessionStorage s"
  "fallbackEnabled (saveToHistory cid opts s) = fallbackEnabled s"
  "initialized (saveToHistory cid opts s) = initialized s"
  "pendingIncrements (saveToHistory cid opts s) = pendingIncrements s"
  "page_counters (saveToHistory cid opts s) = page_counters s"
  "requests (saveToHistory cid opts s) = requests s"
  using saveToHistory_state [of cid opts s] by auto

lemma not_ends_in_catch:
  assumes "Thrown \<notin> set (take 2 (script s))" and "opts \<noteq> JNull"
  shows "\<not> ends_in_catch cid opts s"
proof -
  obtain n where "fst (increment_remote cid opts s) = Inr n"
    using increment_remote_returns [OF assms] by blast
  then show ?thesis by (simp add: ends_in_catch_def)
qed

lemma incrementCounter_sets_flag:
  assumes "initialized s" "\<not> truthy (getItem (sessionStorage s) (sessionPrefix @ cid))"
    and "\<not> ends_in_catch cid opts s"
  shows "sessionStorage (snd (incrementCounter cid opts s)) =
           setItem (sessionStorage s) (sessionPrefix @ cid) (Text ''true'')"
    and "initialized (snd (incrementCounter cid opts s))"
proof -
  from assms obtain n where "fst (increment_remote cid opts s) = Inr n"
    by (auto simp: ends_in_catch_def split: sum.splits)
  then obtain s1 where r: "increment_remote cid opts s = (Inr n, s1)"
    by (cases "increment_remote cid opts s") simp
  then have s1: "sessionStorage s1 = sessionStorage s" "initialized s1 = initialized s"
    using increment_remote_frame(2,4) [of cid opts s] by simp_all
  obtain c s2 where l: "incrementLocal cid opts s1 = (c, s2)"
    by (cases "incrementLocal cid opts s1")
  then have s2: "sessionStorage s2 = sessionStorage s1" "initialized s2 = initialized s1"
    using incrementLocal_state(1) [of cid opts s1] by simp_all
  from assms(1,2) r l
  show "sessionStorage (snd (incrementCounter cid opts s)) =
          setItem (sessionStorage s) (sessionPrefix @ cid) (Text ''true'')"
    by (simp add: incrementCounter_def Let_def saveToHistory_frame s1 s2)
  from assms(1,2) r l
  show "initialized (snd (incrementCounter cid opts s))"
    by (simp add: incrementCounter_def Let_def saveToHistory_frame s1 s2)
qed

text \<open>
  A call that ends in its catch block counts in the local mirror and leaves the flag
  as it was.
\<close>

lemma incrementCounter_catch_leaves_flag:
  assumes "ends_in_catch cid opts s"
  shows "sessionStorage (snd (incrementCounter cid opts s)) = sessionStorage s"
    and "local_count (snd (incrementCounter cid opts s)) cid = local_count s cid + 1"
proof -
  from assms obtain e where "fst (increment_remote cid opts s) = Inl e"
    by (auto simp: ends_in_catch_def split: sum.splits)
  then obtain s1 where r: "increment_remote cid opts s = (Inl e, s1)"
    by (cases "increment_remote cid opts s") simp
  then have s1: "sessionStorage s1 = sessionStorage s" "localStorage s1 = localStorage s"
    using increment_remote_frame(1,2) [of cid opts s] by simp_all
  obtain c s2 where l: "incrementLocal cid opts s1 = (c, s2)"
    by (cases "incrementLocal cid opts s1")
  then have s2: "sessionStorage s2 = sessionStorage s1"
    using incrementLocal_state(1) [of cid opts s1] by simp
  have "local_count s1 cid = local_count s cid"
    by (rule local_count_cong) (simp add: s1)
  moreover have "local_count s2 cid = local_count s1 cid + 1"
    using local_count_incrementLocal_same [of cid opts s1] l by simp
  ultimately have c: "local_count s2 cid = local_count s cid + 1" by simp
  from assms r l show "sessionStorage (snd (incrementCounter cid opts s)) = sessionStorage s"
    by (simp add: ends_in_catch_def incrementCounter_def Let_def s1 s2)
  from assms r l c
  show "local_count (snd (incrementCounter cid opts s)) cid = local_count s cid + 1"
    by (simp add: ends_in_catch_def incrementCounter_def Let_def)
qed

text \<open>
  Claim C2, as amended. Once the engine is initialized, for two calls of
  \<^verbatim>\<open>incrementCounter\<close> for a counter, the second made in the state the first one
  leaves (the flag not cleared in between), whatever the network answers then:
  if the first call does not end in its catch block, it leaves the per-tab flag of the
  counter set, and the second call writes nothing: local store, remote table, the
  requests sent and the volatile store are as the first call left them. So the two
  calls change the counter at most once.
\<close>

theorem incrementCounter_second_call_writes_nothing:
  assumes init: "initialized s"
    and smooth: "\<not> ends_in_catch cid opts s"
    and first: "incrementCounter cid opts s = (r1, s1)"
    and second: "incrementCounter cid opts' (s1\<lparr> script := os \<rparr>) = (r2, s2)"
  shows "truthy (getItem (sessionStorage s1) (sessionPrefix @ cid)) \<and>
         localStorage s2 = localStorage s1 \<and> page_counters s2 = page_counters s1 \<and>
         requests s2 = requests s1 \<and> sessionStorage s2 = sessionStorage s1"
proof -
  have "truthy (getItem (sessionStorage s1) (sessionPrefix @ cid)) \<and> initialized s1"
  proof (cases "truthy (getItem (sessionStorage s) (sessionPrefix @ cid))")
    case True
    with init first have "s1 = snd (getCounterValue cid s)"
      by (simp add: incrementCounter_flagged)
    with True init show ?thesis by (simp add: getCounterValue_state)
  next
    case False
    have "sessionStorage (snd (incrementCounter cid opts s)) =
            setItem (sessionStorage s) (sessionPrefix @ cid) (Text ''true'')"
      and "initialized (snd (incrementCounter cid opts s))"
      using init False smooth by (rule incrementCounter_sets_flag)+
    with first show ?thesis by (simp add: getItem_setItem)
  qed
  then have flag: "truthy (getItem (sessionStorage s1) (sessionPrefix @ cid))"
    and init1: "initialized s1" by simp_all
  let ?s = "s1\<lparr> script := os \<rparr>"
  from init1 flag have "incrementCounter cid opts' ?s = getCounterValue cid ?s"
    by (intro incrementCounter_flagged) simp_all
  with second have "s2 = snd (getCounterValue cid ?s)" by simp
  then have "localStorage s2 = localStorage s1 \<and> page_counters s2 = page_counters s1 \<and>
             requests s2 = requests s1 \<and> sessionStorage s2 = sessionStorage s1"
    by (simp add: getCounterValue_state)
  with flag show ?thesis by simp
qed


lemmas system_eval = fresh_system_def new_CounterSystem_def empty_browser_def ready_system_def

lemmas remote_eval = select_count_def insert_row_def update_row_def next_outcome_def

lemma first_queued: "incrementCounter ''a'' JNull fresh_system = (Inr 1, queued_once)"
  by (simp add: incrementCounter_def queued_once_def system_eval local_eval)

lemma parse_1: "parseInt_str ''1'' = Some 1"
  by (simp add: parseInt_str_def is_ws_def hex_prefix_def is_digit_def decimal_def digit_val_def)

lemma second_queued: "incrementCounter ''a'' JNull queued_once = (Inr 2, queued_twice)"
  by (simp add: incrementCounter_def queued_once_def queued_twice_def system_eval local_eval
        parse_1)

lemma parse_2: "parseInt_str ''2'' = Some 2"
  by (simp add: parseInt_str_def is_ws_def hex_prefix_def is_digit_def decimal_def digit_val_def)

text \<open>
  Claim C2 as stated fails for calls made before initialization completes: each of them
  increments the local mirror (and is queued), and the flag is neither read nor set.
  Two such calls take the value \<^verbatim>\<open>getCounterValue\<close> returns from 0 to 1 and to 2.
\<close>

theorem incrementCounter_twice_before_initialize:
  "fst (getCounterValue ''a'' fresh_system) = Inr 0 \<and>
   fst (getCounterValue ''a'' (snd (incrementCounter ''a'' JNull fresh_system))) = Inr 1 \<and>
   fst (getCounterValue ''a''
          (snd (incrementCounter ''a'' JNull
                  (snd (incrementCounter ''a'' JNull fresh_system))))) = Inr 2 \<and>
   getItem (sessionStorage (snd (incrementCounter ''a'' JNull fresh_system)))
     (sessionPrefix @ ''a'') = None"
proof -
  have "fst (getCounterValue ''a'' fresh_system) = Inr 0"
    by (simp add: getCounterValue_def system_eval parseInt_or0_def getItem_def)
  moreover have "fst (getCounterValue ''a'' queued_once) = Inr 1"
    by (simp add: getCounterValue_def queued_once_def system_eval parseInt_or0_def
          getItem_def localStoragePrefix_def parse_1)
  moreover have "fst (getCounterValue ''a'' queued_twice) = Inr 2"
    by (simp add: getCounterValue_def queued_twice_def system_eval parseInt_or0_def
          getItem_def localStoragePrefix_def parse_2)
  moreover have "getItem (sessionStorage queued_once) (sessionPrefix @ ''a'') = None"
    by (simp add: queued_once_def system_eval getItem_def)
  ultimately show ?thesis
    by (simp add: first_queued second_queued)
qed

lemma ready_remote:
  "increment_remote ''a'' (JObj []) ready_system =
     (Inr 1, ready_system\<lparr> page_counters := [''a'' \<mapsto> 1], requests := [Insert ''a'' 1] \<rparr>)"
  by (simp add: increment_remote_def remote_eval system_eval)

lemma first_counted: "incrementCounter ''a'' (JObj []) ready_system = (Inr 1, counted_once)"
proof -
  let ?t1 = "ready_system\<lparr> page_counters := [''a'' \<mapsto> 1], requests := [Insert ''a'' 1] \<rparr>"
  let ?t2 = "?t1\<lparr> localStorage := [(''fresko_counter_a'', Text ''1''),
                        (''fresko_counter_a_details'', DetailsJ 0 ''UA'' [] (JObj []))] \<rparr>"
  have flag: "\<not> truthy (getItem (sessionStorage ready_system) (sessionPrefix @ ''a''))"
    by (simp add: system_eval getItem_def)
  have init: "initialized ready_system" by (simp add: system_eval)
  have loc: "incrementLocal ''a'' (JObj []) ?t1 = (1, ?t2)"
    by (simp add: system_eval local_eval)
  have hist: "saveToHistory ''a'' (JObj [])
      (?t2\<lparr> sessionStorage :=
               setItem (sessionStorage ready_system) (sessionPrefix @ ''a'') (Text ''true'') \<rparr>)
      = counted_once"
    by (simp add: saveToHistory_def counted_once_def system_eval getItem_def setItem_def
          Let_def localStoragePrefix_def sessionPrefix_def)
  show ?thesis
    using flag init by (simp add: incrementCounter_def Let_def ready_remote loc hist)
qed

lemma second_counted:
  "incrementCounter ''a'' (JObj []) (counted_once\<lparr> script := [Failed] \<rparr>) = (Inr 1, counted_once)"
  by (simp add: incrementCounter_def getCounterValue_def remote_eval counted_once_def
        system_eval Let_def getItem_def localStoragePrefix_def sessionPrefix_def
        parseInt_or0_def parse_1)

theorem incrementCounter_second_call_writes_nothing_witness:
  "initialized ready_system \<and> \<not> ends_in_catch ''a'' (JObj []) ready_system \<and>
   incrementCounter ''a'' (JObj []) ready_system = (Inr 1, counted_once) \<and>
   incrementCounter ''a'' (JObj []) (counted_once\<lparr> script := [Failed] \<rparr>) = (Inr 1, counted_once) \<and>
   truthy (getItem (sessionStorage counted_once) (sessionPrefix @ ''a''))"
proof -
  have i: "initialized ready_system" by (simp add: system_eval)
  have c: "\<not> ends_in_catch ''a'' (JObj []) ready_system"
    by (simp add: ends_in_catch_def ready_remote)
  show ?thesis
    using i c first_counted second_counted
      incrementCounter_second_call_writes_nothing [OF i c first_counted second_counted]
    by simp
qed

text \<open>
  With \<^verbatim>\<open>null\<close> for options and no remote row for the counter, the call ends in its
  catch block: it sends no write, counts in the local mirror and sets no flag.
\<close>

lemma incrementCounter_null_options:
  "ends_in_catch ''a'' JNull ready_system \<and>
   incrementCounter ''a'' JNull ready_system =
     (Inr 1, ready_system\<lparr> localStorage := [(''fresko_counter_a'', Text ''1''),
               (''fresko_counter_a_details'', DetailsJ 0 ''UA'' [] JNull)] \<rparr>)"
proof -
  have rem: "increment_remote ''a'' JNull ready_system = (Inl TypeError, ready_system)"
    by (simp add: increment_remote_def remote_eval system_eval)
  have flag: "\<not> truthy (getItem (sessionStorage ready_system) (sessionPrefix @ ''a''))"
    by (simp add: system_eval getItem_def)
  have init: "initialized ready_system" by (simp add: system_eval)
  have loc: "incrementLocal ''a'' JNull ready_system =
     (1, ready_system\<lparr> localStorage := [(''fresko_counter_a'', Text ''1''),
               (''fresko_counter_a_details'', DetailsJ 0 ''UA'' [] JNull)] \<rparr>)"
    by (simp add: system_eval local_eval)
  show ?thesis
    using flag init by (simp add: ends_in_catch_def incrementCounter_def Let_def rem loc)
qed


section \<open>Counters: synchronization with the remote table\<close>

lemma sync_key_localStorage: "localStorage (snd (sync_key key s)) = localStorage s"
  unfolding sync_key_def Let_def
  by (auto simp: select_count_state insert_row_frame update_row_frame
           split: option.splits prod.splits sum.splits
           dest!: arg_cong [where f = snd])

lemma sync_key_modes:
  "fallbackEnabled (snd (sync_key key s)) = fallbackEnabled s"
  "initialized (snd (sync_key key s)) = initialized s"
  unfolding sync_key_def Let_def
  by (auto simp: select_count_state insert_row_frame update_row_frame
           split: option.splits prod.splits sum.splits
           dest!: arg_cong [where f = snd])

lemma sync_key_not_lowered:
  "not_lowered (page_counters s) (page_counters (snd (sync_key key s)))"
proof (cases "str_includes key ''_history'' \<or> str_includes key ''_details'' \<or>
              str_includes key ''click_''")
  case True
  then show ?thesis by (simp add: sync_key_def not_lowered_refl)
next
  case skip: False
  let ?cid = "drop (length localStoragePrefix) key"
  show ?thesis
  proof (cases "parseInt (getItem (localStorage s) key)")
    case None
    with skip show ?thesis by (simp add: sync_key_def not_lowered_refl)
  next
    case (Some localCount)
    obtain r s1 where sel: "select_count ?cid s = (r, s1)" by (cases "select_count ?cid s")
    then have s1: "page_counters s1 = page_counters s"
      using page_counters_select_count [of ?cid s] by simp
    show ?thesis
    proof (cases r)
      case (Inl e)
      with skip Some sel s1 show ?thesis
        by (simp add: sync_key_def Let_def not_lowered_refl)
    next
      case (Inr found)
      show ?thesis
      proof (cases found)
        case None
        have "not_lowered (page_counters s1) (page_counters (snd (insert_row ?cid localCount s1)))"
          by (rule insert_row_not_lowered)
        with skip Some sel Inr None s1 show ?thesis
          by (simp add: sync_key_def Let_def)
      next
        case found: (Some c)
        with sel Inr have row: "page_counters s ?cid = Some c"
          using select_count_Some [of ?cid s c] by simp
        show ?thesis
        proof (cases "localCount > c")
          case True
          with row s1 have
            "not_lowered (page_counters s1) (page_counters (snd (update_row ?cid localCount s1)))"
            by (intro update_row_not_lowered) simp
          with skip Some sel Inr found s1 True show ?thesis
            by (simp add: sync_key_def Let_def)
        next
          case False
          with skip Some sel Inr found s1 show ?thesis
            by (simp add: sync_key_def Let_def not_lowered_refl)
        qed
      qed
    qed
  qed
qed

lemma sync_loop_localStorage: "localStorage (snd (sync_loop ks s)) = localStorage s"
proof (induction ks arbitrary: s)
  case Nil
  show ?case by simp
next
  case (Cons k ks)
  obtain e s1 where k: "sync_key k s = (e, s1)" by (cases "sync_key k s")
  then have "localStorage s1 = localStorage s" using sync_key_localStorage [of k s] by simp
  with k Cons show ?case by (cases e) simp_all
qed

lemma sync_loop_not_lowered:
  "not_lowered (page_counters s) (page_counters (snd (sync_loop ks s)))"
proof (induction ks arbitrary: s)
  case Nil
  show ?case by (simp add: not_lowered_refl)
next
  case (Cons k ks)
  obtain e s1 where k: "sync_key k s = (e, s1)" by (cases "sync_key k s")
  then have 1: "not_lowered (page_counters s) (page_counters s1)"
    using sync_key_not_lowered [of s k] by simp
  show ?case
  proof (cases e)
    case None
    with k 1 Cons [of s1] show ?thesis by (auto intro: not_lowered_trans)
  next
    case (Some x)
    with k 1 show ?thesis by simp
  qed
qed

lemma syncWithDatabase_not_lowered:
  "not_lowered (page_counters s) (page_counters (snd (syncWithDatabase s)))"
proof (cases "fallbackEnabled s")
  case True
  then show ?thesis by (simp add: syncWithDatabase_def not_lowered_refl)
next
  case False
  let ?ks = "filter (\<lambda>key. startsWith key localStoragePrefix) (keys_of (localStorage s))"
  have "not_lowered (page_counters s) (page_counters (snd (sync_loop ?ks s)))"
    by (rule sync_loop_not_lowered)
  with False show ?thesis
    by (auto simp: syncWithDatabase_def Let_def split: prod.splits option.splits)
qed

lemma next_outcome_served:
  "all_served (script s) \<Longrightarrow>
   next_outcome s = (Served, s\<lparr> script := tl (script s) \<rparr>) \<and> all_served (tl (script s))"
  by (cases "script s") (auto simp: next_outcome_def all_served_def)

lemma select_count_served:
  "all_served (script s) \<Longrightarrow>
   select_count cid s = (Inr (page_counters s cid), s\<lparr> script := tl (script s) \<rparr>)"
  by (simp add: select_count_def next_outcome_served)

lemma insert_row_served:
  assumes "all_served (script s)" "page_counters s cid = None"
  shows "insert_row cid c s =
           (None, s\<lparr> requests := requests s @ [Insert cid c], script := tl (script s),
                     page_counters := (page_counters s)(cid \<mapsto> c) \<rparr>)"
proof -
  let ?s = "s\<lparr> requests := requests s @ [Insert cid c] \<rparr>"
  have "all_served (script ?s)" using assms(1) by simp
  from next_outcome_served [OF this] assms(2) show ?thesis
    by (simp add: insert_row_def)
qed

lemma update_row_served:
  assumes "all_served (script s)" "page_counters s cid = Some c0"
  shows "update_row cid c s =
           (None, s\<lparr> requests := requests s @ [Update cid c], script := tl (script s),
                     page_counters := (page_counters s)(cid \<mapsto> c) \<rparr>)"
proof -
  let ?s = "s\<lparr> requests := requests s @ [Update cid c] \<rparr>"
  have "all_served (script ?s)" using assms(1) by simp
  from next_outcome_served [OF this] assms(2) show ?thesis
    by (simp add: update_row_def)
qed

lemma all_served_tl: "all_served os \<Longrightarrow> all_served (tl os)"
  by (cases os) (simp_all add: all_served_def)

lemma sync_key_served:
  assumes "all_served (script s)"
  shows "fst (sync_key key s) = None \<and> in_sync (snd (sync_key key s)) key \<and>
         all_served (script (snd (sync_key key s)))"
proof (cases "skipped key")
  case True
  with assms show ?thesis by (simp add: sync_key_def in_sync_def skipped_def)
next
  case skip: False
  let ?cid = "drop (length localStoragePrefix) key"
  show ?thesis
  proof (cases "parseInt (getItem (localStorage s) key)")
    case None
    with assms skip show ?thesis by (simp add: sync_key_def in_sync_def skipped_def)
  next
    case (Some n)
    note sel = select_count_served [OF assms, of ?cid]
    let ?s1 = "s\<lparr> script := tl (script s) \<rparr>"
    have s1: "all_served (script ?s1)" using assms by (simp add: all_served_tl)
    have tl2: "all_served (tl (tl (script s)))" using assms by (simp add: all_served_tl)
    show ?thesis
    proof (cases "page_counters s ?cid")
      case None
      then have "page_counters ?s1 ?cid = None" by simp
      from insert_row_served [OF s1 this, of n] skip Some sel None tl2 show ?thesis
        by (simp add: sync_key_def Let_def in_sync_def skipped_def)
    next
      case row: (Some c)
      show ?thesis
      proof (cases "n > c")
        case True
        from row have "page_counters ?s1 ?cid = Some c" by simp
        from update_row_served [OF s1 this, of n] skip Some sel row True tl2 show ?thesis
          by (simp add: sync_key_def Let_def in_sync_def skipped_def)
      next
        case False
        with skip Some sel row s1 show ?thesis
          by (simp add: sync_key_def Let_def in_sync_def skipped_def)
      qed
    qed
  qed
qed

lemma in_sync_kept:
  assumes "in_sync s key" "not_lowered (page_counters s) (page_counters s')"
    and "localStorage s' = localStorage s"
  shows "in_sync s' key"
  using assms unfolding in_sync_def not_lowered_def
  by (fastforce split: option.splits)

lemma sync_loop_served:
  assumes "all_served (script s)"
  shows "fst (sync_loop ks s) = None \<and> (\<forall>k \<in> set ks. in_sync (snd (sync_loop ks s)) k) \<and>
         all_served (script (snd (sync_loop ks s)))"
  using assms
proof (induction ks arbitrary: s)
  case Nil
  then show ?case by simp
next
  case (Cons k ks)
  obtain s1 where k: "sync_key k s = (None, s1)"
    using sync_key_served [OF Cons.prems, of k] by (cases "sync_key k s") auto
  with sync_key_served [OF Cons.prems, of k]
  have s1: "in_sync s1 k" "all_served (script s1)" by simp_all
  let ?s' = "snd (sync_loop ks s1)"
  from Cons.IH [OF s1(2)] have
    rest: "fst (sync_loop ks s1) = None" "\<forall>k \<in> set ks. in_sync ?s' k" "all_served (script ?s')"
    by simp_all
  have "in_sync ?s' k"
    using s1(1) sync_loop_not_lowered [of s1 ks] sync_loop_localStorage [of ks s1]
    by (rule in_sync_kept)
  with k rest show ?case by simp
qed

lemma sync_key_in_sync:
  assumes "all_served (script s)" "in_sync s key"
  shows "\<exists>xs. sync_key key s = (None, s\<lparr> script := xs \<rparr>) \<and> all_served xs"
proof (cases "skipped key")
  case True
  with assms(1) show ?thesis
    by (intro exI [of _ "script s"]) (simp add: sync_key_def skipped_def)
next
  case skip: False
  let ?cid = "drop (length localStoragePrefix) key"
  show ?thesis
  proof (cases "parseInt (getItem (localStorage s) key)")
    case None
    with assms(1) skip show ?thesis
      by (intro exI [of _ "script s"]) (simp add: sync_key_def skipped_def)
  next
    case (Some n)
    with assms(2) skip obtain c where row: "page_counters s ?cid = Some c" "n \<le> c"
      by (auto simp: in_sync_def split: option.splits)
    with skip Some select_count_served [OF assms(1), of ?cid] assms(1) show ?thesis
      by (intro exI [of _ "tl (script s)"])
         (simp add: sync_key_def Let_def skipped_def all_served_tl)
  qed
qed

lemma in_sync_script [simp]: "in_sync (s\<lparr> script := xs \<rparr>) key = in_sync s key"
  by (simp add: in_sync_def cong: option.case_cong)

lemma sync_loop_in_sync:
  assumes "all_served (script s)" "\<forall>k \<in> set ks. in_sync s k"
  shows "\<exists>xs. sync_loop ks s = (None, s\<lparr> script := xs \<rparr>)"
  using assms
proof (induction ks arbitrary: s)
  case Nil
  show ?case by (intro exI [of _ "script s"]) simp
next
  case (Cons k ks)
  from Cons.prems obtain xs where k: "sync_key k s = (None, s\<lparr> script := xs \<rparr>)" "all_served xs"
    using sync_key_in_sync [of s k] by auto
  have "\<exists>ys. sync_loop ks (s\<lparr> script := xs \<rparr>) = (None, s\<lparr> script := xs \<rparr>\<lparr> script := ys \<rparr>)"
    using Cons.prems k(2) by (intro Cons.IH) simp_all
  with k(1) show ?case by auto
qed

lemma sync_loop_modes:
  "fallbackEnabled (snd (sync_loop ks s)) = fallbackEnabled s"
proof (induction ks arbitrary: s)
  case Nil
  show ?case by simp
next
  case (Cons k ks)
  obtain e s1 where k: "sync_key k s = (e, s1)" by (cases "sync_key k s")
  then have "fallbackEnabled s1 = fallbackEnabled s" using sync_key_modes(1) [of k s] by simp
  with k Cons show ?case by (cases e) simp_all
qed

text \<open>
  Claim C4, as amended. When the network serves every remote call of two successive
  runs of \<^verbatim>\<open>syncWithDatabase\<close> (no local increment in between), the second run sends
  no insert and no update and leaves the remote table as it is. And whatever the network
  answers, a run of \<^verbatim>\<open>syncWithDatabase\<close> from any state \<open>t\<close> lowers no remote row:
  every row is still there afterwards with a count at least as large.
\<close>

theorem syncWithDatabase_twice:
  assumes served: "all_served (script s)" "all_served os"
    and first: "syncWithDatabase s = (r1, s1)"
    and second: "syncWithDatabase (s1\<lparr> script := os \<rparr>) = (r2, s2)"
  shows "requests s2 = requests s1 \<and> page_counters s2 = page_counters s1 \<and>
         not_lowered (page_counters t) (page_counters (snd (syncWithDatabase t)))"
proof -
  have same: "requests s2 = requests s1 \<and> page_counters s2 = page_counters s1"
  proof (cases "fallbackEnabled s")
    case True
    with first have "s1 = s" by (simp add: syncWithDatabase_def)
    with True second show ?thesis by (auto simp: syncWithDatabase_def)
  next
    case False
    let ?ks = "filter (\<lambda>key. startsWith key localStoragePrefix) (keys_of (localStorage s))"
    obtain e s' where run: "sync_loop ?ks s = (e, s')" by (cases "sync_loop ?ks s")
    with sync_loop_served [OF served(1), of ?ks]
    have loop: "e = None" "\<forall>k \<in> set ?ks. in_sync s' k" by simp_all
    with False first run have s1: "s1 = s'" by (simp add: syncWithDatabase_def Let_def)
    have ls: "localStorage s1 = localStorage s"
      unfolding s1 using sync_loop_localStorage [of ?ks s] run by simp
    have fb: "\<not> fallbackEnabled s1"
      unfolding s1 using False sync_loop_modes [of ?ks s] run by simp
    let ?t = "s1\<lparr> script := os \<rparr>"
    have "\<exists>xs. sync_loop ?ks ?t = (None, ?t\<lparr> script := xs \<rparr>)"
      using served(2) loop(2) by (intro sync_loop_in_sync) (simp_all add: s1)
    then obtain xs where "sync_loop ?ks ?t = (None, ?t\<lparr> script := xs \<rparr>)" by blast
    with fb ls second have "s2 = ?t\<lparr> script := xs \<rparr>"
      by (simp add: syncWithDatabase_def Let_def)
    then show ?thesis by simp
  qed
  then show ?thesis by (simp add: syncWithDatabase_not_lowered)
qed

lemma parse_3: "parseInt_str ''3'' = Some 3"
  by (simp add: parseInt_str_def is_ws_def hex_prefix_def is_digit_def decimal_def digit_val_def)

lemmas sync_eval = syncWithDatabase_def sync_key_def remote_eval unsynced_def system_eval
  keys_of_def startsWith_def localStoragePrefix_def getItem_def parse_3 Let_def

text \<open>
  Claim C4 as stated fails when a remote call of the first run fails: here its insert
  comes back with an error (the run still returns \<^verbatim>\<open>true\<close>), and the second run
  sends the insert again and adds the row.
\<close>

theorem syncWithDatabase_second_run_writes:
  "syncWithDatabase (unsynced\<lparr> script := [Served, Failed] \<rparr>) =
     (Inr True, unsynced\<lparr> requests := [Insert ''a'' 3] \<rparr>) \<and>
   syncWithDatabase (unsynced\<lparr> requests := [Insert ''a'' 3] \<rparr>) =
     (Inr True, unsynced\<lparr> requests := [Insert ''a'' 3, Insert ''a'' 3],
                         page_counters := [''a'' \<mapsto> 3] \<rparr>)"
  by (simp add: sync_eval)

theorem syncWithDatabase_twice_witness:
  "all_served (script unsynced) \<and> all_served [Served] \<and>
   syncWithDatabase unsynced =
     (Inr True, unsynced\<lparr> requests := [Insert ''a'' 3], page_counters := [''a'' \<mapsto> 3] \<rparr>) \<and>
   syncWithDatabase
     (unsynced\<lparr> requests := [Insert ''a'' 3], page_counters := [''a'' \<mapsto> 3],
                 script := [Served] \<rparr>) =
     (Inr True, unsynced\<lparr> requests := [Insert ''a'' 3], page_counters := [''a'' \<mapsto> 3] \<rparr>) \<and>
   syncWithDatabase ahead_remote =
     (Inr True, unsynced\<lparr> page_counters := [''a'' \<mapsto> 10], requests := [Insert ''a'' 3] \<rparr>) \<and>
   not_lowered (page_counters ahead_remote) (page_counters (snd (syncWithDatabase ahead_remote)))"
proof -
  have h1: "all_served (script unsynced)" by (simp add: unsynced_def system_eval all_served_def)
  have h2: "all_served [Served]" by (simp add: all_served_def)
  have r1: "syncWithDatabase unsynced =
     (Inr True, unsynced\<lparr> requests := [Insert ''a'' 3], page_counters := [''a'' \<mapsto> 3] \<rparr>)"
    by (simp add: sync_eval)
  have r2: "syncWithDatabase
     ((unsynced\<lparr> requests := [Insert ''a'' 3], page_counters := [''a'' \<mapsto> 3] \<rparr>)
        \<lparr> script := [Served] \<rparr>) =
     (Inr True, unsynced\<lparr> requests := [Insert ''a'' 3], page_counters := [''a'' \<mapsto> 3] \<rparr>)"
    by (simp add: sync_eval)
  have r3: "syncWithDatabase ahead_remote =
     (Inr True, unsynced\<lparr> page_counters := [''a'' \<mapsto> 10], requests := [Insert ''a'' 3] \<rparr>)"
    by (simp add: ahead_remote_def sync_eval)
  show ?thesis
    using h1 h2 r1 r2 r3 syncWithDatabase_twice [OF h1 h2 r1 r2, of ahead_remote]
    by simp
qed

section \<open>Counters: the values a counter shows over a run\<close>

lemma advanced_refl: "advanced a s s"
  by (simp add: advanced_def not_lowered_refl)

lemma advanced_trans: "advanced a s s' \<Longrightarrow> advanced a s' s'' \<Longrightarrow> advanced a s s''"
  unfolding advanced_def by (auto intro: not_lowered_trans)

lemma advanced_reconciled:
  assumes "advanced a s s'"
  shows "reconciled s a \<le> reconciled s' a"
proof (cases "page_counters s a")
  case None
  with assms show ?thesis
    by (auto simp: reconciled_def advanced_def split: option.splits)
next
  case (Some c)
  with assms obtain c' where "page_counters s' a = Some c'" "c \<le> c'"
    by (auto simp: advanced_def not_lowered_def)
  with Some assms show ?thesis
    by (auto simp: reconciled_def advanced_def)
qed

lemma advanced_increment_remote: "advanced a s (snd (increment_remote cid opts s))"
proof -
  have "local_count (snd (increment_remote cid opts s)) a = local_count s a"
    by (rule local_count_cong) (simp add: increment_remote_frame)
  then show ?thesis
    by (simp add: advanced_def increment_remote_frame increment_remote_not_lowered)
qed

lemma advanced_incrementLocal:
  "\<not> suffix ''_details'' a \<Longrightarrow> advanced a s (snd (incrementLocal cid opts s))"
  by (simp add: advanced_def local_count_incrementLocal_mono)
     (simp add: incrementLocal_state(1) not_lowered_refl)

lemma advanced_saveToHistory:
  "\<not> suffix ''_history'' a \<Longrightarrow> advanced a s (saveToHistory cid opts s)"
  by (simp add: advanced_def saveToHistory_frame local_count_saveToHistory not_lowered_refl)

lemma advanced_getCounterValue: "advanced a s (snd (getCounterValue cid s))"
  by (simp add: getCounterValue_state advanced_def not_lowered_refl local_count_def)

lemma advanced_incrementCounter:
  assumes "\<not> suffix ''_details'' a" "\<not> suffix ''_history'' a"
  shows "advanced a s (snd (incrementCounter cid opts s))"
proof (cases "initialized s")
  case False
  let ?s0 = "s\<lparr> pendingIncrements := pendingIncrements s @ [(cid, opts)] \<rparr>"
  have "advanced a s ?s0" by (simp add: advanced_def not_lowered_refl local_count_def)
  moreover have "advanced a ?s0 (snd (incrementLocal cid opts ?s0))"
    using assms(1) by (rule advanced_incrementLocal)
  ultimately have "advanced a s (snd (incrementLocal cid opts ?s0))" by (rule advanced_trans)
  with False show ?thesis
    by (auto simp: incrementCounter_def Let_def split: prod.splits)
next
  case init: True
  show ?thesis
  proof (cases "truthy (getItem (sessionStorage s) (sessionPrefix @ cid))")
    case True
    with init show ?thesis
      by (simp add: incrementCounter_flagged advanced_getCounterValue)
  next
    case False
    obtain r s1 where rem: "increment_remote cid opts s = (r, s1)" by (cases "increment_remote cid opts s")
    then have 1: "advanced a s s1" using advanced_increment_remote [of a s cid opts] by simp
    obtain c s2 where loc: "incrementLocal cid opts s1 = (c, s2)"
      by (cases "incrementLocal cid opts s1")
    then have "advanced a s1 s2" using advanced_incrementLocal [OF assms(1), of s1 cid opts] by simp
    with 1 have 2: "advanced a s s2" by (rule advanced_trans)
    show ?thesis
    proof (cases r)
      case (Inl e)
      with init False rem loc 2 show ?thesis by (simp add: incrementCounter_def Let_def)
    next
      case (Inr n)
      let ?s3 = "s2\<lparr> sessionStorage := setItem (sessionStorage s2) (sessionPrefix @ cid) (Text ''true'') \<rparr>"
      have "advanced a s2 ?s3" by (simp add: advanced_def not_lowered_refl local_count_def)
      moreover have "advanced a ?s3 (saveToHistory cid opts ?s3)"
        using assms(2) by (rule advanced_saveToHistory)
      ultimately have "advanced a s (saveToHistory cid opts ?s3)"
        using 2 by (blast intro: advanced_trans)
      with init False rem loc Inr show ?thesis by (simp add: incrementCounter_def Let_def)
    qed
  qed
qed

lemma sync_loop_initialized:
  "initialized (snd (sync_loop ks s)) = initialized s"
proof (induction ks arbitrary: s)
  case Nil
  show ?case by simp
next
  case (Cons k ks)
  obtain e s1 where k: "sync_key k s = (e, s1)" by (cases "sync_key k s")
  then have "initialized s1 = initialized s" using sync_key_modes(2) [of k s] by simp
  with k Cons show ?case by (cases e) simp_all
qed

lemma advanced_syncWithDatabase: "advanced a s (snd (syncWithDatabase s))"
proof (cases "fallbackEnabled s")
  case True
  then show ?thesis by (simp add: syncWithDatabase_def advanced_refl)
next
  case False
  let ?ks = "filter (\<lambda>key. startsWith key localStoragePrefix) (keys_of (localStorage s))"
  have "local_count (snd (sync_loop ?ks s)) a = local_count s a"
    by (rule local_count_cong) (simp add: sync_loop_localStorage)
  then have "advanced a s (snd (sync_loop ?ks s))"
    by (simp add: advanced_def sync_loop_modes sync_loop_initialized sync_loop_not_lowered)
  with False show ?thesis
    by (auto simp: syncWithDatabase_def Let_def split: prod.splits option.splits)
qed

lemma advanced_script: "advanced a s (s\<lparr> script := os \<rparr>)"
  by (simp add: advanced_def not_lowered_refl local_count_def)

lemma local_count_script [simp]: "local_count (s\<lparr> script := os \<rparr>) a = local_count s a"
  by (simp add: local_count_def)

lemma reconciled_script [simp]: "reconciled (s\<lparr> script := os \<rparr>) a = reconciled s a"
  by (simp add: reconciled_def cong: option.case_cong)

lemma local_count_le_reconciled: "local_count s a \<le> reconciled s a"
  by (simp add: reconciled_def split: option.splits)

lemma advanced_local_count: "advanced a s s' \<Longrightarrow> local_count s a \<le> local_count s' a"
  by (simp add: advanced_def)

text \<open>
  What \<^verbatim>\<open>getCounterValue\<close> returns: the local mirror after a failed remote read, the
  reconciled value otherwise.
\<close>

lemma getCounterValue_value:
  "fst (getCounterValue a (s\<lparr> script := os \<rparr>)) =
     Inr (if read_failed s os then local_count s a else reconciled s a)"
proof (cases os)
  case Nil
  then show ?thesis
    by (auto simp: getCounterValue_def select_count_def next_outcome_def reconciled_def
             read_failed_def local_count_def Let_def split: option.splits)
next
  case (Cons oc rest)
  then show ?thesis
    by (cases oc)
       (auto simp: getCounterValue_def select_count_def next_outcome_def reconciled_def
              read_failed_def local_count_def Let_def split: option.splits)
qed

lemma readings_Cons:
  "readings a ((c, r) # obs) = (if c = a then r # readings a obs else readings a obs)"
  by (simp add: readings_def)

text \<open>
  Claim C1, as amended. In a run of \<^verbatim>\<open>incrementCounter\<close>, \<^verbatim>\<open>syncWithDatabase\<close> and
  \<^verbatim>\<open>getCounterValue\<close> calls from any state, whatever the network answers to any of
  the remote calls: a \<^verbatim>\<open>getCounterValue\<close> call for a counter returns no less than any
  earlier \<^verbatim>\<open>getCounterValue\<close> call of the run returned for that counter, the one case
  apart in which the remote read of the later call failed and the remote read of the
  earlier call did not fail. (The counter's id does not end in \<^verbatim>\<open>_details\<close> or
  \<^verbatim>\<open>_history\<close>: the local key of such a counter is the details or history key of
  another one.)
\<close>

theorem getCounterValue_monotone:
  assumes names: "\<not> suffix ''_details'' a" "\<not> suffix ''_history'' a"
  shows "sorted_wrt keeps_level (readings a (run ops s))"
proof -
  have "sorted_wrt keeps_level (readings a (run ops s)) \<and>
        (\<forall>x \<in> set (readings a (run ops s)).
           local_count s a \<le> snd x \<and> (\<not> fst x \<longrightarrow> reconciled s a \<le> snd x))" for ops s
  proof (induction ops arbitrary: s)
    case Nil
    show ?case by (simp add: readings_def)
  next
    case (Cons op ops)
    show ?case
    proof (cases op)
      case (Increment cid opts os)
      let ?s' = "snd (incrementCounter cid opts (s\<lparr> script := os \<rparr>))"
      have "advanced a s (s\<lparr> script := os \<rparr>)" by (rule advanced_script)
      moreover have "advanced a (s\<lparr> script := os \<rparr>) ?s'"
        using names by (rule advanced_incrementCounter)
      ultimately have adv: "advanced a s ?s'" by (rule advanced_trans)
      then have le: "reconciled s a \<le> reconciled ?s' a" by (rule advanced_reconciled)
      from adv have ll: "local_count s a \<le> local_count ?s' a" by (rule advanced_local_count)
      from Cons.IH [of ?s'] le ll Increment show ?thesis by fastforce
    next
      case (Sync os)
      let ?s' = "snd (syncWithDatabase (s\<lparr> script := os \<rparr>))"
      have "advanced a s (s\<lparr> script := os \<rparr>)" by (rule advanced_script)
      moreover have "advanced a (s\<lparr> script := os \<rparr>) ?s'"
        by (rule advanced_syncWithDatabase)
      ultimately have adv: "advanced a s ?s'" by (rule advanced_trans)
      then have le: "reconciled s a \<le> reconciled ?s' a" by (rule advanced_reconciled)
      from adv have ll: "local_count s a \<le> local_count ?s' a" by (rule advanced_local_count)
      from Cons.IH [of ?s'] le ll Sync show ?thesis by fastforce
    next
      case (GetValue c os)
      let ?t = "s\<lparr> script := os \<rparr>"
      obtain v where "fst (getCounterValue c ?t) = Inr v"
        using getCounterValue_returns by blast
      then obtain s1 where g: "getCounterValue c ?t = (Inr v, s1)"
        by (cases "getCounterValue c ?t") simp
      then have "advanced a ?t s1" using advanced_getCounterValue [of a ?t c] by simp
      with advanced_script [of a s os] have adv: "advanced a s s1" by (rule advanced_trans)
      then have le: "reconciled s a \<le> reconciled s1 a" by (rule advanced_reconciled)
      from adv have ll: "local_count s a \<le> local_count s1 a" by (rule advanced_local_count)
      have rest: "\<forall>x \<in> set (readings a (run ops s1)).
                    local_count s a \<le> snd x \<and> (\<not> fst x \<longrightarrow> reconciled s a \<le> snd x)"
        using Cons.IH [of s1] le ll by fastforce
      have obs: "run (op # ops) s = (c, read_failed s os, v) # run ops s1"
        using GetValue g by simp
      show ?thesis
      proof (cases "c = a")
        case True
        have "fst (getCounterValue a ?t) =
                Inr (if read_failed s os then local_count s a else reconciled s a)"
          by (rule getCounterValue_value)
        with g True
        have v: "v = (if read_failed s os then local_count s a else reconciled s a)" by simp
        have here: "local_count s a \<le> v \<and> (\<not> read_failed s os \<longrightarrow> reconciled s a \<le> v)"
          using local_count_le_reconciled [of s a] by (simp add: v)
        have "keeps_level (read_failed s os, v) x" if "x \<in> set (readings a (run ops s1))" for x
        proof (cases "read_failed s os")
          case True
          with rest that v show ?thesis by (simp add: keeps_level_def)
        next
          case False
          with rest that v show ?thesis by (auto simp: keeps_level_def)
        qed
        with Cons.IH [of s1] rest here True show ?thesis
          unfolding obs readings_Cons by simp
      next
        case False
        with Cons.IH [of s1] rest show ?thesis
          unfolding obs readings_Cons by simp
      qed
    qed
  qed
  then show ?thesis by simp
qed

lemma busy_page_increment:
  "incrementCounter ''a'' (JObj []) (busy_page\<lparr> script := [] \<rparr>) = (Inr 42, busy_page_counted)"
proof -
  let ?s = "busy_page\<lparr> script := [] \<rparr>"
  let ?t1 = "ready_system\<lparr> page_counters := [''a'' \<mapsto> 42], requests := [Update ''a'' 42] \<rparr>"
  let ?t2 = "?t1\<lparr> localStorage := [(''fresko_counter_a'', Text ''1''),
                        (''fresko_counter_a_details'', DetailsJ 0 ''UA'' [] (JObj []))] \<rparr>"
  have flag: "\<not> truthy (getItem (sessionStorage ?s) (sessionPrefix @ ''a''))"
    by (simp add: busy_page_def system_eval getItem_def)
  have init: "initialized ?s" by (simp add: busy_page_def system_eval)
  have rem: "increment_remote ''a'' (JObj []) ?s = (Inr 42, ?t1)"
    by (simp add: increment_remote_def remote_eval busy_page_def system_eval)
  have loc: "incrementLocal ''a'' (JObj []) ?t1 = (1, ?t2)"
    by (simp add: system_eval local_eval)
  have hist: "saveToHistory ''a'' (JObj [])
      (?t2\<lparr> sessionStorage :=
               setItem (sessionStorage ready_system) (sessionPrefix @ ''a'') (Text ''true'') \<rparr>)
      = busy_page_counted"
    by (simp add: saveToHistory_def busy_page_counted_def system_eval getItem_def setItem_def
          Let_def localStoragePrefix_def sessionPrefix_def)
  show ?thesis
    using flag init by (simp add: incrementCounter_def Let_def rem loc hist)
qed

lemmas get_eval = getCounterValue_def remote_eval busy_page_counted_def system_eval Let_def
  getItem_def localStoragePrefix_def parseInt_or0_def parse_1

lemma busy_page_read_served:
  "getCounterValue ''a'' (busy_page_counted\<lparr> script := [] \<rparr>) = (Inr 42, busy_page_counted)"
  "getCounterValue ''a'' (busy_page_counted\<lparr> script := [Served] \<rparr>) = (Inr 42, busy_page_counted)"
  by (simp_all add: get_eval)

lemma busy_page_read_failed:
  "getCounterValue ''a'' (busy_page_counted\<lparr> script := [Failed] \<rparr>) = (Inr 1, busy_page_counted)"
  "getCounterValue ''a'' (busy_page_counted\<lparr> script := [Thrown] \<rparr>) = (Inr 1, busy_page_counted)"
  by (simp_all add: get_eval)

lemma busy_page_read_tags:
  "\<not> read_failed busy_page_counted []"
  "\<not> read_failed busy_page_counted [Served]"
  "read_failed busy_page_counted [Failed]"
  "read_failed busy_page_counted [Thrown]"
  by (simp_all add: read_failed_def busy_page_counted_def system_eval)

lemma busy_page_sync:
  "syncWithDatabase (busy_page_counted\<lparr> script := [] \<rparr>) = (Inr True, busy_page_counted)"
  by (simp add: syncWithDatabase_def sync_key_def remote_eval busy_page_counted_def system_eval
        keys_of_def startsWith_def localStoragePrefix_def getItem_def parse_1 Let_def)

text \<open>
  Claim C1 as stated fails when a remote read succeeds at one point and fails later:
  the remote row holds 41 visits, this browser's increment makes it 42 (local mirror 1),
  a served read returns 42, and the next read, which comes back with an error, falls
  back on the local mirror and returns 1.
\<close>

theorem getCounterValue_drops_on_failed_read:
  "run [Increment ''a'' (JObj []) [], GetValue ''a'' [], GetValue ''a'' [Failed]] busy_page =
     [(''a'', False, 42), (''a'', True, 1)] \<and>
   \<not> sorted (returned ''a''
       (run [Increment ''a'' (JObj []) [], GetValue ''a'' [], GetValue ''a'' [Failed]] busy_page))"
proof -
  have "run [Increment ''a'' (JObj []) [], GetValue ''a'' [], GetValue ''a'' [Failed]] busy_page =
          [(''a'', False, 42), (''a'', True, 1)]"
    by (simp add: busy_page_increment busy_page_read_served busy_page_read_failed
          busy_page_read_tags)
  then show ?thesis by (simp add: returned_def readings_def)
qed

theorem getCounterValue_monotone_witness:
  "\<not> suffix ''_details'' ''a'' \<and> \<not> suffix ''_history'' ''a'' \<and>
   readings ''a''
     (run [Increment ''a'' (JObj []) [], GetValue ''a'' [], GetValue ''a'' [Failed], Sync [],
           GetValue ''a'' [Served], GetValue ''a'' [Thrown]] busy_page) =
     [(False, 42), (True, 1), (False, 42), (True, 1)] \<and>
   sorted_wrt keeps_level
     (readings ''a''
        (run [Increment ''a'' (JObj []) [], GetValue ''a'' [], GetValue ''a'' [Failed], Sync [],
              GetValue ''a'' [Served], GetValue ''a'' [Thrown]] busy_page))"
proof -
  let ?ops = "[Increment ''a'' (JObj []) [], GetValue ''a'' [], GetValue ''a'' [Failed], Sync [],
               GetValue ''a'' [Served], GetValue ''a'' [Thrown]]"
  have h2: "\<not> suffix ''_details'' ''a''" by (simp add: suffix_to_prefix)
  have h3: "\<not> suffix ''_history'' ''a''" by (simp add: suffix_to_prefix)
  have r: "run ?ops busy_page =
             [(''a'', False, 42), (''a'', True, 1), (''a'', False, 42), (''a'', True, 1)]"
    by (simp add: busy_page_increment busy_page_read_served busy_page_read_failed
          busy_page_read_tags busy_page_sync)
  then have r': "readings ''a'' (run ?ops busy_page) =
                   [(False, 42), (True, 1), (False, 42), (True, 1)]"
    by (simp add: readings_def)
  show ?thesis
    using h2 h3 r' getCounterValue_monotone [OF h2 h3, of ?ops busy_page] by simp
qed

text \<open>
  The details key of a counter \<^verbatim>\<open>c\<close> is the local key of the counter
  \<^verbatim>\<open>c_details\<close>: an increment of \<^verbatim>\<open>c\<close> puts a JSON text there, and the local mirror
  of \<^verbatim>\<open>c_details\<close> reads as 0 afterwards.
\<close>

lemma details_key_is_a_counter_key:
  "local_count (snd (incrementLocal cid opts s)) (cid @ ''_details'') = 0"
  by (simp add: incrementLocal_state(1) local_count_def getItem_setItem parseInt_or0_def)

section \<open>Counters: initialization when the probe returns\<close>

lemma incrementCounter_returns: "\<exists>v. fst (incrementCounter cid opts s) = Inr v"
proof (cases "initialized s \<and> truthy (getItem (sessionStorage s) (sessionPrefix @ cid))")
  case True
  then show ?thesis by (simp add: incrementCounter_flagged getCounterValue_returns)
next
  case False
  then show ?thesis
    by (auto simp: incrementCounter_def Let_def split: prod.splits sum.splits)
qed

lemma incrementCounter_engine:
  "initialized (snd (incrementCounter cid opts s)) = initialized s"
  "fallbackEnabled (snd (incrementCounter cid opts s)) = fallbackEnabled s"
  "initialized s \<Longrightarrow>
   pendingIncrements (snd (incrementCounter cid opts s)) = pendingIncrements s"
proof -
  let ?s' = "snd (incrementCounter cid opts s)"
  have "initialized ?s' = initialized s \<and> fallbackEnabled ?s' = fallbackEnabled s \<and>
        (initialized s \<longrightarrow> pendingIncrements ?s' = pendingIncrements s)"
  proof (cases "initialized s")
    case False
    then show ?thesis
      by (simp add: incrementCounter_def Let_def incrementLocal_def)
  next
    case init: True
    show ?thesis
    proof (cases "truthy (getItem (sessionStorage s) (sessionPrefix @ cid))")
      case True
      with init show ?thesis by (simp add: incrementCounter_flagged getCounterValue_state)
    next
      case False
      obtain r s1 where rem: "increment_remote cid opts s = (r, s1)"
        by (cases "increment_remote cid opts s")
      then have 1: "pendingIncrements s1 = pendingIncrements s" "initialized s1 = initialized s"
        "fallbackEnabled s1 = fallbackEnabled s"
        using increment_remote_frame(3,4,5) [of cid opts s] by simp_all
      obtain c s2 where loc: "incrementLocal cid opts s1 = (c, s2)"
        by (cases "incrementLocal cid opts s1")
      then have 2: "pendingIncrements s2 = pendingIncrements s1" "initialized s2 = initialized s1"
        "fallbackEnabled s2 = fallbackEnabled s1"
        using incrementLocal_state(1) [of cid opts s1] by simp_all
      from init False rem loc 1 2 show ?thesis
        by (cases r) (simp_all add: incrementCounter_def Let_def saveToHistory_frame)
    qed
  qed
  then show "initialized ?s' = initialized s" "fallbackEnabled ?s' = fallbackEnabled s"
    "initialized s \<Longrightarrow> pendingIncrements ?s' = pendingIncrements s"
    by simp_all
qed

text \<open>
  The calls the loop of \<^verbatim>\<open>initialize\<close> makes, one after the other in the order of the
  queue, each on the state the one before it left.
\<close>

lemma drain_in_order:
  "drain [] s = (Inr (), s)"
  "drain ((cid, opts) # rest) s = drain rest (snd (incrementCounter cid opts s))"
proof -
  show "drain [] s = (Inr (), s)" by simp
  obtain v where "fst (incrementCounter cid opts s) = Inr v"
    using incrementCounter_returns by blast
  then obtain s1 where "incrementCounter cid opts s = (Inr v, s1)"
    by (cases "incrementCounter cid opts s") simp
  then show "drain ((cid, opts) # rest) s = drain rest (snd (incrementCounter cid opts s))"
    by simp
qed

lemma drain_returns:
  "initialized s \<Longrightarrow>
   fst (drain q s) = Inr () \<and> initialized (snd (drain q s)) \<and>
   pendingIncrements (snd (drain q s)) = pendingIncrements s"
proof (induction q arbitrary: s)
  case Nil
  then show ?case by simp
next
  case (Cons x q)
  obtain cid opts where x: "x = (cid, opts)" by (cases x)
  let ?s1 = "snd (incrementCounter cid opts s)"
  from Cons.prems have "initialized ?s1" by (simp add: incrementCounter_engine)
  from Cons.IH [OF this] Cons.prems show ?case
    unfolding x drain_in_order by (simp add: incrementCounter_engine)
qed

text \<open>
  When the probe returns (served, or with an error), \<^verbatim>\<open>initialize\<close> ends initialized
  with the queue drained in order and empty.
\<close>

lemma initialize_drains_when_probe_returns:
  assumes "script s = [] \<or> hd (script s) \<noteq> Thrown"
  shows "initialized (snd (initialize s)) \<and> pendingIncrements (snd (initialize s)) = [] \<and>
         (\<exists>fb. snd (initialize s) =
            (snd (drain (pendingIncrements s)
                    (s\<lparr> script := tl (script s), fallbackEnabled := fb, initialized := True \<rparr>)))
            \<lparr> pendingIncrements := [] \<rparr>)"
proof -
  obtain oc where oc: "next_outcome s = (oc, s\<lparr> script := tl (script s) \<rparr>)" "oc \<noteq> Thrown"
    using assms by (cases "script s") (auto simp: next_outcome_def)
  let ?s2 = "s\<lparr> script := tl (script s), fallbackEnabled := (oc \<noteq> Served), initialized := True \<rparr>"
  have init: "initialized ?s2" by simp
  note d = drain_returns [OF init, of "pendingIncrements s"]
  obtain s3 where s3: "drain (pendingIncrements s) ?s2 = (Inr (), s3)"
    using d by (cases "drain (pendingIncrements s) ?s2") auto
  with d have s3i: "initialized s3" by simp
  have res: "snd (initialize s) = s3\<lparr> pendingIncrements := [] \<rparr>"
  proof (cases "pendingIncrements s = []")
    case True
    with s3 have "s3 = ?s2" by simp
    with oc True show ?thesis
      by (cases oc) (simp_all add: initialize_def Let_def)
  next
    case False
    with oc s3 show ?thesis
      by (cases oc) (simp_all add: initialize_def Let_def)
  qed
  have "snd (initialize s) = (snd (drain (pendingIncrements s) ?s2))\<lparr> pendingIncrements := [] \<rparr>"
    using res s3 by simp
  then have "\<exists>fb. snd (initialize s) =
            (snd (drain (pendingIncrements s)
                    (s\<lparr> script := tl (script s), fallbackEnabled := fb, initialized := True \<rparr>)))
            \<lparr> pendingIncrements := [] \<rparr>"
    by blast
  with res s3i show ?thesis by simp
qed

end
